theory Spec2Isabelle
  imports
    Complex_Main
    "HOL-Library.Multiset"
    "HOL-Library.Product_Lexorder"
    "HOL-Library.List_Lexorder"
    "HOL-Library.Char_ord"
begin


section \<open>Data frames\<close>

text \<open>
  The functions of \<^verbatim>\<open>utils/data_prep.py\<close> work on pandas data frames. A frame is
  modelled by its column names, in order, and its rows; a row is its index label and
  its cells, keyed by column name.

  A cell is a float (\<open>Num\<close>, \<open>PosInf\<close>, \<open>NegInf\<close>, \<open>NaN\<close>), a text or a calendar
  instant. Finite floats are exact rationals: the model has the IEEE special values
  but neither rounding error, overflow nor a signed zero. \<open>NaN\<close> is also pandas'
  missing value (an empty CSV field, \<open>NaT\<close> in a datetime column).

  The text parsers of \<^verbatim>\<open>pd.to_datetime\<close> and \<^verbatim>\<open>pd.to_numeric\<close> are library code
  and are not modelled. A raw cell records their verdict instead: in the date column
  \<open>Date t\<close> is a cell that pandas reads as the instant \<open>t\<close>, and in a column that
  the code passes to \<^verbatim>\<open>pd.to_numeric\<close> a number is a cell that pandas reads as that
  number; every other non-missing cell is one the parser rejects.
\<close>

datatype cell = Num rat | PosInf | NegInf | NaN | Text string | Date int

datatype error =
    KeyError string
  | DateParseError
  | TypeError
  | AmbiguousColumn string
  | MergeError

type_synonym cells = "(string \<times> cell) list"

type_synonym row = "nat \<times> cells"

record frame =
  columns :: "string list"
  rows :: "row list"

text \<open>Raising is the left summand; \<open>and_then\<close> runs the next statement unless one raised.\<close>

definition and_then :: "error + 'a \<Rightarrow> ('a \<Rightarrow> error + 'b) \<Rightarrow> error + 'b" where
  "and_then m f = (case m of Inl e \<Rightarrow> Inl e | Inr x \<Rightarrow> f x)"

fun traverse :: "('a \<Rightarrow> error + 'b) \<Rightarrow> 'a list \<Rightarrow> error + 'b list" where
  "traverse f [] = Inr []"
| "traverse f (x # xs) =
     (case f x of
        Inl e \<Rightarrow> Inl e
      | Inr y \<Rightarrow> (case traverse f xs of Inl e \<Rightarrow> Inl e | Inr ys \<Rightarrow> Inr (y # ys)))"

definition cell_at :: "string \<Rightarrow> cells \<Rightarrow> cell" where
  "cell_at c cs = (case map_of cs c of Some v \<Rightarrow> v | None \<Rightarrow> NaN)"

text \<open>
  \<^verbatim>\<open>df[c]\<close>: a \<^verbatim>\<open>KeyError\<close> when the frame has no such column. For a name that
  two columns share pandas hands back a sub-frame, and every statement of this file
  that goes on with it raises; the model raises at the lookup.
\<close>

definition series :: "frame \<Rightarrow> string \<Rightarrow> error + cell list" where
  "series df c =
     (if c \<notin> set (columns df) then Inl (KeyError c)
      else if 1 < count_list (columns df) c then Inl (AmbiguousColumn c)
      else Inr (map (\<lambda>r. cell_at c (snd r)) (rows df)))"

definition set_cell :: "string \<Rightarrow> cell \<Rightarrow> cells \<Rightarrow> cells" where
  "set_cell c v cs =
     (if c \<in> set (map fst cs) then map (\<lambda>(k, x). (k, if k = c then v else x)) cs
      else cs @ [(c, v)])"

text \<open>\<^verbatim>\<open>df[c] = values\<close>: overwrites the column in place, or appends it as the last one.\<close>

definition assign :: "string \<Rightarrow> cell list \<Rightarrow> frame \<Rightarrow> frame" where
  "assign c vs df =
     \<lparr>columns = (if c \<in> set (columns df) then columns df else columns df @ [c]),
      rows = map2 (\<lambda>v r. (fst r, set_cell c v (snd r))) vs (rows df)\<rparr>"

text \<open>\<^verbatim>\<open>df[mask]\<close>: the rows whose mask entry is true, labels kept.\<close>

definition select :: "bool list \<Rightarrow> frame \<Rightarrow> frame" where
  "select keep df = df\<lparr>rows := map snd (filter fst (zip keep (rows df)))\<rparr>"

section \<open>Column arithmetic\<close>

fun is_number :: "cell \<Rightarrow> bool" where
  "is_number (Text s) = False"
| "is_number (Date t) = False"
| "is_number c = True"

text \<open>Float division: a zero divisor gives an infinity or \<open>NaN\<close>, never an error.\<close>

fun fdiv :: "cell \<Rightarrow> cell \<Rightarrow> cell" where
  "fdiv (Num x) (Num y) =
     (if y = 0 then (if x = 0 then NaN else if 0 < x then PosInf else NegInf)
      else Num (x / y))"
| "fdiv (Num x) PosInf = Num 0"
| "fdiv (Num x) NegInf = Num 0"
| "fdiv PosInf (Num y) = (if 0 \<le> y then PosInf else NegInf)"
| "fdiv NegInf (Num y) = (if 0 \<le> y then NegInf else PosInf)"
| "fdiv a b = NaN"

definition cdiv :: "cell \<Rightarrow> cell \<Rightarrow> error + cell" where
  "cdiv a b = (if is_number a \<and> is_number b then Inr (fdiv a b) else Inl TypeError)"

text \<open>\<^verbatim>\<open>a / b\<close> on two columns.\<close>

definition sdiv :: "cell list \<Rightarrow> cell list \<Rightarrow> error + cell list" where
  "sdiv a b = traverse (\<lambda>(x, y). cdiv x y) (zip a b)"

text \<open>\<^verbatim>\<open>s * k\<close> for the positive constants 100 and 1000 of the source.\<close>

fun scale :: "rat \<Rightarrow> cell \<Rightarrow> cell" where
  "scale k (Num x) = Num (x * k)"
| "scale k c = c"

text \<open>
  \<^verbatim>\<open>.round(2)\<close>: numpy multiplies by 100, rounds to the nearest integer with ties to
  the even one, and divides by 100.
\<close>

definition rint :: "rat \<Rightarrow> int" where
  "rint x =
     (let f = \<lfloor>x\<rfloor>; d = x - of_int f
      in if d < 1 / 2 then f else if 1 / 2 < d then f + 1 else if even f then f else f + 1)"

fun round2 :: "cell \<Rightarrow> cell" where
  "round2 (Num x) = Num (of_int (rint (x * 100)) / 100)"
| "round2 c = c"

text \<open>\<^verbatim>\<open>s > 0\<close>: false on \<open>NaN\<close>, a \<^verbatim>\<open>TypeError\<close> on a text or a timestamp.\<close>

fun gt0 :: "cell \<Rightarrow> error + bool" where
  "gt0 (Num x) = Inr (0 < x)"
| "gt0 PosInf = Inr True"
| "gt0 NegInf = Inr False"
| "gt0 NaN = Inr False"
| "gt0 (Text s) = Inl TypeError"
| "gt0 (Date t) = Inl TypeError"

text \<open>\<^verbatim>\<open>np.where(cond, values, 0)\<close>.\<close>

definition np_where0 :: "bool list \<Rightarrow> cell list \<Rightarrow> cell list" where
  "np_where0 cond vs = map2 (\<lambda>b v. if b then v else Num 0) cond vs"

section \<open>Cleaning steps\<close>

text \<open>
  \<^verbatim>\<open>pd.to_datetime(s)\<close> with its default \<^verbatim>\<open>errors='raise'\<close>: one cell it cannot
  read raises for the whole column. A missing cell becomes \<open>NaT\<close>.
\<close>

fun to_datetime1 :: "cell \<Rightarrow> error + cell" where
  "to_datetime1 (Date t) = Inr (Date t)"
| "to_datetime1 NaN = Inr NaN"
| "to_datetime1 c = Inl DateParseError"

definition to_datetime :: "cell list \<Rightarrow> error + cell list" where
  "to_datetime s = traverse to_datetime1 s"

text \<open>\<^verbatim>\<open>pd.to_numeric(s, errors='coerce')\<close>: what is not a number becomes \<open>NaN\<close>.\<close>

fun to_numeric1 :: "cell \<Rightarrow> cell" where
  "to_numeric1 (Text s) = NaN"
| "to_numeric1 (Date t) = NaN"
| "to_numeric1 c = c"

text \<open>
  One round of the loop
  \<^verbatim>\<open>for col in numeric_columns: if col in df.columns: df[col] = pd.to_numeric(df[col], errors='coerce')\<close>.
\<close>

definition coerce_column :: "string \<Rightarrow> frame \<Rightarrow> error + frame" where
  "coerce_column col df =
     (if col \<in> set (columns df)
      then and_then (series df col) (\<lambda>s. Inr (assign col (map to_numeric1 s) df))
      else Inr df)"

fun coerce_columns :: "string list \<Rightarrow> frame \<Rightarrow> error + frame" where
  "coerce_columns [] df = Inr df"
| "coerce_columns (col # cols) df = and_then (coerce_column col df) (coerce_columns cols)"

text \<open>\<^verbatim>\<open>df.fillna(0)\<close>: every missing cell of every column becomes 0.\<close>

fun fill0 :: "cell \<Rightarrow> cell" where
  "fill0 NaN = Num 0"
| "fill0 c = c"

definition fillna0 :: "frame \<Rightarrow> frame" where
  "fillna0 df = df\<lparr>rows := map (\<lambda>r. (fst r, map (\<lambda>(k, v). (k, fill0 v)) (snd r))) (rows df)\<rparr>"

text \<open>
  \<^verbatim>\<open>np.where(df[g] > 0, (df[a] / df[b] * k).round(2), 0)\<close>. Python evaluates the
  condition first, then the quotient on every row, and only then selects: a missing
  column or a non-numeric cell raises whatever the condition says.
\<close>

definition guarded_ratio :: "frame \<Rightarrow> string \<Rightarrow> string \<Rightarrow> string \<Rightarrow> rat \<Rightarrow> error + cell list" where
  "guarded_ratio df g a b k =
     and_then (series df g) (\<lambda>sg.
     and_then (traverse gt0 sg) (\<lambda>cond.
     and_then (series df a) (\<lambda>sa.
     and_then (series df b) (\<lambda>sb.
     and_then (sdiv sa sb) (\<lambda>q.
     Inr (np_where0 cond (map (round2 \<circ> scale k) q)))))))"

text \<open>\<^verbatim>\<open>(df[a] / df[b] * k).round(2)\<close> with no guard.\<close>

definition plain_ratio :: "frame \<Rightarrow> string \<Rightarrow> string \<Rightarrow> rat \<Rightarrow> error + cell list" where
  "plain_ratio df a b k =
     and_then (series df a) (\<lambda>sa.
     and_then (series df b) (\<lambda>sb.
     and_then (sdiv sa sb) (\<lambda>q.
     Inr (map (round2 \<circ> scale k) q))))"

section \<open>clean\_marketing\_data\<close>

definition clean_marketing_data :: "frame \<Rightarrow> string \<Rightarrow> error + frame" where
  "clean_marketing_data df platform_name =
     and_then (series df ''date'') (\<lambda>d.
     and_then (to_datetime d) (\<lambda>d'.
     let df1 = assign ''date'' d' df;
         df2 = assign ''platform'' (replicate (length (rows df1)) (Text platform_name)) df1
     in
     and_then (coerce_columns [''impression'', ''clicks'', ''spend'', ''attributed revenue''] df2) (\<lambda>df3.
     let df4 = fillna0 df3 in
     and_then (guarded_ratio df4 ''impression'' ''clicks'' ''impression'' 100) (\<lambda>ctr.
     let df5 = assign ''ctr'' ctr df4 in
     and_then (guarded_ratio df5 ''clicks'' ''spend'' ''clicks'' 1) (\<lambda>cpc.
     let df6 = assign ''cpc'' cpc df5 in
     and_then (guarded_ratio df6 ''spend'' ''attributed revenue'' ''spend'' 1) (\<lambda>roas.
     let df7 = assign ''roas'' roas df6 in
     and_then (guarded_ratio df7 ''impression'' ''spend'' ''impression'' 1000) (\<lambda>cpm.
     let df8 = assign ''cpm'' cpm df7 in
     and_then (series df8 ''impression'') (\<lambda>imp.
     and_then (traverse gt0 imp) (\<lambda>keep.
     Inr (select keep df8))))))))))"

section \<open>clean\_business\_data\<close>

text \<open>\<^verbatim>\<open>str.replace(old, new)\<close> for a one-character \<open>old\<close>: every occurrence is replaced.\<close>

definition str_replace :: "char \<Rightarrow> string \<Rightarrow> string \<Rightarrow> string" where
  "str_replace old new s = concat (map (\<lambda>x. if x = old then new else [x]) s)"

text \<open>\<^verbatim>\<open>df.columns.str.replace('#', 'num').str.replace(' ', '_')\<close> on one name.\<close>

definition clean_column_name :: "string \<Rightarrow> string" where
  "clean_column_name n = str_replace (CHR '' '') ''_'' (str_replace (CHR ''#'') ''num'' n)"

definition rename_columns :: "(string \<Rightarrow> string) \<Rightarrow> frame \<Rightarrow> frame" where
  "rename_columns f df =
     \<lparr>columns = map f (columns df),
      rows = map (\<lambda>r. (fst r, map (\<lambda>(k, v). (f k, v)) (snd r))) (rows df)\<rparr>"

text \<open>
  \<^verbatim>\<open>df.drop_duplicates(subset=[c])\<close> with its default \<^verbatim>\<open>keep='first'\<close>: a row goes
  when an earlier row has the same value in column \<open>c\<close>. \<open>seen\<close> holds the values of
  the rows passed so far.
\<close>

fun keep_first :: "string \<Rightarrow> cell list \<Rightarrow> row list \<Rightarrow> row list" where
  "keep_first c seen [] = []"
| "keep_first c seen (r # rs) =
     (if cell_at c (snd r) \<in> set seen then keep_first c seen rs
      else r # keep_first c (cell_at c (snd r) # seen) rs)"

definition drop_duplicates :: "string \<Rightarrow> frame \<Rightarrow> error + frame" where
  "drop_duplicates c df =
     and_then (series df c) (\<lambda>s. Inr (df\<lparr>rows := keep_first c [] (rows df)\<rparr>))"

definition clean_business_data :: "frame \<Rightarrow> error + frame" where
  "clean_business_data df =
     and_then (series df ''date'') (\<lambda>d.
     and_then (to_datetime d) (\<lambda>d'.
     let df1 = assign ''date'' d' df;
         df2 = rename_columns clean_column_name df1
     in
     and_then (coerce_columns [''total_revenue'', ''gross_profit'', ''COGS''] df2) (\<lambda>df3.
     let df4 = fillna0 df3 in
     and_then (plain_ratio df4 ''gross_profit'' ''total_revenue'' 100) (\<lambda>profit_margin.
     let df5 = assign ''profit_margin'' profit_margin df4 in
     and_then (plain_ratio df5 ''total_revenue'' ''num_of_orders'' 1) (\<lambda>avg_order_value.
     let df6 = assign ''avg_order_value'' avg_order_value df5 in
     drop_duplicates ''date'' df6)))))"

section \<open>combine\_marketing\_data\<close>

text \<open>
  \<^verbatim>\<open>pd.concat(frames, ignore_index=True)\<close>: the columns are the union of the frames'
  columns in order of first appearance, a cell of a column that a frame lacks is
  missing, and the rows are labelled afresh from 0.
\<close>

definition reindex :: "string list \<Rightarrow> cells \<Rightarrow> cells" where
  "reindex cols cs = map (\<lambda>c. (c, cell_at c cs)) cols"

definition union_columns :: "frame list \<Rightarrow> string list" where
  "union_columns dfs = fold (\<lambda>df acc. acc @ filter (\<lambda>c. c \<notin> set acc) (columns df)) dfs []"

definition concat_frames :: "frame list \<Rightarrow> frame" where
  "concat_frames dfs =
     \<lparr>columns = union_columns dfs,
      rows = enumerate 0 (map (\<lambda>r. reindex (union_columns dfs) (snd r)) (concat (map rows dfs)))\<rparr>"

text \<open>
  Sorting compares cells. Numbers, texts and timestamps are ordered among themselves;
  comparing across these kinds raises a \<^verbatim>\<open>TypeError\<close>. Missing keys go last.
  \<open>sort_rank\<close> is an order-preserving key into a linear order.
\<close>

fun kind :: "cell \<Rightarrow> nat" where
  "kind (Text s) = 1"
| "kind (Date t) = 2"
| "kind NaN = 3"
| "kind c = 0"

definition comparable :: "cell list \<Rightarrow> bool" where
  "comparable ks = (length (remdups (map kind (filter (\<lambda>k. k \<noteq> NaN) ks))) \<le> 1)"

fun sort_rank :: "cell \<Rightarrow> nat \<times> rat \<times> int \<times> string" where
  "sort_rank NegInf = (0, 0, 0, [])"
| "sort_rank (Num x) = (1, x, 0, [])"
| "sort_rank PosInf = (2, 0, 0, [])"
| "sort_rank (Date t) = (3, 0, t, [])"
| "sort_rank (Text s) = (4, 0, 0, s)"
| "sort_rank NaN = (5, 0, 0, [])"

text \<open>
  \<^verbatim>\<open>df.sort_values(c)\<close> sorts with numpy's \<^verbatim>\<open>argsort\<close> of the default kind
  \<^verbatim>\<open>'quicksort'\<close>. That routine is library code, and the library documents the kind
  as not stable. It is a parameter of the model: \<open>argsort ks\<close> is the list of
  positions in the order in which the sort puts them. \<open>argsort_spec\<close> is all that is
  assumed about it: on keys it can compare it returns a permutation of the positions
  that puts the keys in ascending order. \<open>nargsort\<close>, in the next section, is the
  routine that the library runs on a column of timestamps.
\<close>

definition sorting_permutation :: "cell list \<Rightarrow> nat list \<Rightarrow> bool" where
  "sorting_permutation ks p \<longleftrightarrow>
     sort p = [0..<length ks] \<and> sorted (map (\<lambda>i. sort_rank (ks ! i)) p)"

definition argsort_spec :: "(cell list \<Rightarrow> nat list) \<Rightarrow> bool" where
  "argsort_spec argsort \<longleftrightarrow> (\<forall>ks. comparable ks \<longrightarrow> sorting_permutation ks (argsort ks))"

definition sort_values :: "(cell list \<Rightarrow> nat list) \<Rightarrow> string \<Rightarrow> frame \<Rightarrow> error + frame" where
  "sort_values argsort c df =
     and_then (series df c) (\<lambda>ks.
     if comparable ks then Inr (df\<lparr>rows := map (\<lambda>i. rows df ! i) (argsort ks)\<rparr>)
     else Inl TypeError)"

definition combine_marketing_data ::
    "(cell list \<Rightarrow> nat list) \<Rightarrow> frame \<Rightarrow> frame \<Rightarrow> frame \<Rightarrow> error + frame" where
  "combine_marketing_data argsort facebook_df google_df tiktok_df =
     and_then (clean_marketing_data facebook_df ''Facebook'') (\<lambda>facebook_clean.
     and_then (clean_marketing_data google_df ''Google'') (\<lambda>google_clean.
     and_then (clean_marketing_data tiktok_df ''TikTok'') (\<lambda>tiktok_clean.
     sort_values argsort ''date''
       (concat_frames [facebook_clean, google_clean, tiktok_clean]))))"

section \<open>The library's sort\<close>

text \<open>
  For a column of timestamps the routine behind \<^verbatim>\<open>sort_values\<close> is numpy's
  \<^verbatim>\<open>aquicksort_<npy::datetime_tag>\<close> (\<^verbatim>\<open>npysort/quicksort.cpp\<close>), an introsort on the
  array \<open>tosort\<close> of positions: ranges of more than 17 positions are partitioned
  around the median of three, shorter ones are sorted by insertion, and a range that
  is reached with the depth budget used up goes to heap sort. \<open>pl\<close>, \<open>pm\<close>, \<open>pr\<close>,
  \<open>p_i\<close>, \<open>p_j\<close> are the pointers of the C code, as positions in \<open>tosort\<close>; \<open>v\<close> is
  the array of keys.
\<close>

definition SMALL_QUICKSORT :: nat where
  "SMALL_QUICKSORT = 16"

text \<open>\<^verbatim>\<open>while (unum >>= 1) depth_limit++\<close>.\<close>

fun npy_get_msb :: "nat \<Rightarrow> nat" where
  "npy_get_msb unum = (if unum div 2 = 0 then 0 else npy_get_msb (unum div 2) + 1)"

declare npy_get_msb.simps [simp del]

text \<open>\<^verbatim>\<open>Tag::less\<close>: the order of the keys, a missing timestamp above all others.\<close>

definition less_tag :: "cell \<Rightarrow> cell \<Rightarrow> bool" where
  "less_tag a b \<longleftrightarrow> sort_rank a < sort_rank b"

definition INTP_SWAP :: "nat list \<Rightarrow> nat \<Rightarrow> nat \<Rightarrow> nat list" where
  "INTP_SWAP tosort a b = tosort[a := tosort ! b, b := tosort ! a]"

text \<open>
  The three conditional swaps that leave the median of the keys at \<open>pl\<close>, \<open>pm\<close>,
  \<open>pr\<close> at \<open>pm\<close>.
\<close>

definition median_of_three :: "cell list \<Rightarrow> nat list \<Rightarrow> nat \<Rightarrow> nat \<Rightarrow> nat \<Rightarrow> nat list" where
  "median_of_three v tosort pl pm pr =
     (let t1 = (if less_tag (v ! (tosort ! pm)) (v ! (tosort ! pl)) then INTP_SWAP tosort pm pl else tosort);
          t2 = (if less_tag (v ! (t1 ! pr)) (v ! (t1 ! pm)) then INTP_SWAP t1 pr pm else t1)
      in if less_tag (v ! (t2 ! pm)) (v ! (t2 ! pl)) then INTP_SWAP t2 pm pl else t2)"

text \<open>
  \<^verbatim>\<open>do ++pi; while (less(v[*pi], vp))\<close> and \<^verbatim>\<open>do --pj; while (less(vp, v[*pj]))\<close>,
  entered at the incremented and the decremented pointer. The C loops have no bound check:
  the pivot at \<open>pr - 1\<close> stops the first and the key at \<open>pl\<close>, which is not above the
  pivot, stops the second. The bounds \<open>hi\<close> and \<open>lo\<close> are these two positions.
\<close>

function scan_up :: "cell list \<Rightarrow> cell \<Rightarrow> nat list \<Rightarrow> nat \<Rightarrow> nat \<Rightarrow> nat" where
  "scan_up v vp tosort hi p_i =
     (if p_i < hi \<and> less_tag (v ! (tosort ! p_i)) vp then scan_up v vp tosort hi (p_i + 1) else p_i)"
  by pat_completeness auto
termination
  by (relation "measure (\<lambda>(v, vp, tosort, hi, p_i). hi - p_i)") auto

declare scan_up.simps [simp del]

function scan_down :: "cell list \<Rightarrow> cell \<Rightarrow> nat list \<Rightarrow> nat \<Rightarrow> nat \<Rightarrow> nat" where
  "scan_down v vp tosort lo p_j =
     (if lo < p_j \<and> less_tag vp (v ! (tosort ! p_j)) then scan_down v vp tosort lo (p_j - 1) else p_j)"
  by pat_completeness auto
termination
  by (relation "measure (\<lambda>(v, vp, tosort, lo, p_j). p_j)") auto

declare scan_down.simps [simp del]

lemma scan_up_ge: "p_i \<le> scan_up v vp tosort hi p_i"
  by (induction v vp tosort hi p_i rule: scan_up.induct) (subst scan_up.simps, auto)

lemma scan_up_le: "p_i \<le> hi \<Longrightarrow> scan_up v vp tosort hi p_i \<le> hi"
  by (induction v vp tosort hi p_i rule: scan_up.induct) (subst scan_up.simps, auto)

lemma scan_down_le: "scan_down v vp tosort lo p_j \<le> p_j"
  by (induction v vp tosort lo p_j rule: scan_down.induct) (subst scan_down.simps, auto)

text \<open>The \<^verbatim>\<open>for (;;)\<close> loop of the partition: scan, stop when the pointers meet, else swap.\<close>

function partition_loop ::
    "cell list \<Rightarrow> cell \<Rightarrow> nat \<Rightarrow> nat \<Rightarrow> nat list \<Rightarrow> nat \<Rightarrow> nat \<Rightarrow> nat list \<times> nat" where
  "partition_loop v vp lo hi tosort p_i p_j =
     (let p_i' = scan_up v vp tosort hi (p_i + 1);
          p_j' = scan_down v vp tosort lo (p_j - 1)
      in if p_i' \<ge> p_j' then (tosort, p_i')
         else partition_loop v vp lo hi (INTP_SWAP tosort p_i' p_j') p_i' p_j')"
  by pat_completeness auto
termination
proof (relation "measure (\<lambda>(v, vp, lo, hi, tosort, p_i, p_j). p_j - p_i)", goal_cases)
  case 1
  show ?case by simp
next
  case (2 v vp lo hi tosort p_i p_j x xa)
  have "p_i + 1 \<le> x" using 2(1) scan_up_ge by simp
  moreover have "xa \<le> p_j - 1" using 2(2) scan_down_le by simp
  ultimately show ?case using 2(3) by simp
qed

declare partition_loop.simps [simp del]

text \<open>
  Insertion sort of the range \<open>pl .. pr\<close>: \<^verbatim>\<open>while (pj > pl && less(vp, v[*pk])) *pj-- = *pk--\<close>
  moves the positions with a greater key one place up, and \<^verbatim>\<open>*pj = vi\<close> fills the gap.
\<close>

function insertion_shift :: "cell list \<Rightarrow> cell \<Rightarrow> nat \<Rightarrow> nat list \<Rightarrow> nat \<Rightarrow> nat list \<times> nat" where
  "insertion_shift v vp pl tosort p_j =
     (if pl < p_j \<and> less_tag vp (v ! (tosort ! (p_j - 1)))
      then insertion_shift v vp pl (tosort[p_j := tosort ! (p_j - 1)]) (p_j - 1)
      else (tosort, p_j))"
  by pat_completeness auto
termination
  by (relation "measure (\<lambda>(v, vp, pl, tosort, p_j). p_j)") auto

declare insertion_shift.simps [simp del]

definition insertion_step :: "cell list \<Rightarrow> nat \<Rightarrow> nat list \<Rightarrow> nat \<Rightarrow> nat list" where
  "insertion_step v pl tosort p_i =
     (let vi = tosort ! p_i;
          (shifted, p_j) = insertion_shift v (v ! vi) pl tosort p_i
      in shifted[p_j := vi])"

definition insertion_sort :: "cell list \<Rightarrow> nat list \<Rightarrow> nat \<Rightarrow> nat \<Rightarrow> nat list" where
  "insertion_sort v tosort pl pr = foldl (insertion_step v pl) tosort [pl + 1 ..< pr + 1]"

text \<open>
  \<^verbatim>\<open>aheapsort_\<close> on the \<open>n\<close> positions from \<open>pl\<close>. The C code indexes the heap from 1
  through \<^verbatim>\<open>a = tosort - 1\<close>, so \<^verbatim>\<open>a[k]\<close> is \<open>tosort ! (pl + k - 1)\<close>. \<open>sift_down\<close> is
  the inner loop with its closing \<^verbatim>\<open>a[i] = tmp\<close>.
\<close>

function sift_down ::
    "cell list \<Rightarrow> nat \<Rightarrow> nat \<Rightarrow> nat \<Rightarrow> nat list \<Rightarrow> nat \<Rightarrow> nat \<Rightarrow> nat list" where
  "sift_down v pl n tmp tosort i j =
     (if 0 < j \<and> j \<le> n then
        let j' = (if j < n \<and> less_tag (v ! (tosort ! (pl + j - 1))) (v ! (tosort ! (pl + j)))
                  then j + 1 else j)
        in if less_tag (v ! tmp) (v ! (tosort ! (pl + j' - 1)))
           then sift_down v pl n tmp (tosort[pl + i - 1 := tosort ! (pl + j' - 1)]) j' (j' + j')
           else tosort[pl + i - 1 := tmp]
      else tosort[pl + i - 1 := tmp])"
  by pat_completeness auto
termination
  by (relation "measure (\<lambda>(v, pl, n, tmp, tosort, i, j). n + 1 - j)") auto

declare sift_down.simps [simp del]

definition heapify_step :: "cell list \<Rightarrow> nat \<Rightarrow> nat \<Rightarrow> nat list \<Rightarrow> nat \<Rightarrow> nat list" where
  "heapify_step v pl n tosort l = sift_down v pl n (tosort ! (pl + l - 1)) tosort l (2 * l)"

definition extract_step :: "cell list \<Rightarrow> nat \<Rightarrow> nat list \<Rightarrow> nat \<Rightarrow> nat list" where
  "extract_step v pl tosort n =
     (let tmp = tosort ! (pl + n - 1)
      in sift_down v pl (n - 1) tmp (tosort[pl + n - 1 := tosort ! pl]) 1 2)"

definition aheapsort :: "cell list \<Rightarrow> nat list \<Rightarrow> nat \<Rightarrow> nat \<Rightarrow> nat list" where
  "aheapsort v tosort pl n =
     foldl (extract_step v pl)
       (foldl (heapify_step v pl n) tosort (rev [1 ..< n div 2 + 1]))
       (rev [2 ..< n + 1])"

text \<open>
  One round of \<^verbatim>\<open>while ((pr - pl) > SMALL_QUICKSORT)\<close> up to the swap that puts the pivot
  at its place \<open>p_i\<close>.
\<close>

definition quicksort_partition :: "cell list \<Rightarrow> nat list \<Rightarrow> nat \<Rightarrow> nat \<Rightarrow> nat list \<times> nat" where
  "quicksort_partition v tosort pl pr =
     (let pm = pl + (pr - pl) div 2;
          t1 = median_of_three v tosort pl pm pr;
          vp = v ! (t1 ! pm);
          (t2, p_i) = partition_loop v vp pl (pr - 1) (INTP_SWAP t1 pm (pr - 1)) pl (pr - 1)
      in (INTP_SWAP t2 p_i (pr - 1), p_i))"

lemma partition_loop_bounds:
  "p_i < hi \<Longrightarrow> p_j \<le> hi \<Longrightarrow> p_i < snd (partition_loop v vp lo hi tosort p_i p_j) \<and>
     snd (partition_loop v vp lo hi tosort p_i p_j) \<le> hi"
proof (induction v vp lo hi tosort p_i p_j rule: partition_loop.induct)
  case (1 v vp lo hi tosort p_i p_j)
  let ?x = "scan_up v vp tosort hi (p_i + 1)"
  let ?y = "scan_down v vp tosort lo (p_j - 1)"
  have x: "p_i + 1 \<le> ?x" "?x \<le> hi"
    using scan_up_ge [of "p_i + 1" v vp tosort hi] scan_up_le [of "p_i + 1" hi v vp tosort] 1(2)
    by simp_all
  have y: "?y \<le> p_j - 1"
    using scan_down_le [of v vp tosort lo "p_j - 1"] by simp
  have eq: "partition_loop v vp lo hi tosort p_i p_j =
      (if ?y \<le> ?x then (tosort, ?x)
       else partition_loop v vp lo hi (INTP_SWAP tosort ?x ?y) ?x ?y)"
    by (subst partition_loop.simps) (simp add: Let_def)
  show ?case
  proof (cases "?y \<le> ?x")
    case True
    with x show ?thesis
      by (simp add: eq)
  next
    case False
    then have b: "?x < hi" "?y \<le> hi"
      using y 1(3) by simp_all
    have "?x < snd (partition_loop v vp lo hi (INTP_SWAP tosort ?x ?y) ?x ?y) \<and>
        snd (partition_loop v vp lo hi (INTP_SWAP tosort ?x ?y) ?x ?y) \<le> hi"
      using False by (intro 1(1) [OF refl refl _ b]) simp
    with x False show ?thesis
      by (simp add: eq)
  qed
qed

lemma partition_bounds:
  assumes "pl + 1 < pr"
  shows "pl < snd (quicksort_partition v tosort pl pr) \<and> snd (quicksort_partition v tosort pl pr) < pr"
proof -
  define t1 where "t1 = median_of_three v tosort pl (pl + (pr - pl) div 2) pr"
  define vp where "vp = v ! (t1 ! (pl + (pr - pl) div 2))"
  define t2 where "t2 = INTP_SWAP t1 (pl + (pr - pl) div 2) (pr - 1)"
  have eq: "snd (quicksort_partition v tosort pl pr) = snd (partition_loop v vp pl (pr - 1) t2 pl (pr - 1))"
    by (simp add: quicksort_partition_def Let_def split_beta t1_def vp_def t2_def)
  have "pl < pr - 1"
    using assms by simp
  from partition_loop_bounds [OF this order_refl, of v vp pl t2] show ?thesis
    unfolding eq using assms by linarith
qed

text \<open>The weight of a range on the stack, for the termination of the outer loop.\<close>

definition range_weight :: "nat \<times> nat \<times> int \<Rightarrow> nat" where
  "range_weight r = (case r of (pl, pr, cdepth) \<Rightarrow> 4 * (pr + 1 - pl) + 3)"

text \<open>
  The outer loop. After a partition the larger part is pushed on the stack with the
  depth budget, and the loop goes on with the smaller part; a range that is short enough
  is sorted by insertion, and then the stack is popped.
\<close>

function quicksort_loop ::
    "cell list \<Rightarrow> nat list \<Rightarrow> nat \<Rightarrow> nat \<Rightarrow> int \<Rightarrow> (nat \<times> nat \<times> int) list \<Rightarrow> nat list"
  and stack_pop :: "cell list \<Rightarrow> nat list \<Rightarrow> (nat \<times> nat \<times> int) list \<Rightarrow> nat list" where
  "quicksort_loop v tosort pl pr cdepth stack =
     (if pr - pl > SMALL_QUICKSORT then
        let (t, p_i) = quicksort_partition v tosort pl pr
        in if p_i - pl < pr - p_i
           then quicksort_loop v t pl (p_i - 1) (cdepth - 1) ((p_i + 1, pr, cdepth - 1) # stack)
           else quicksort_loop v t (p_i + 1) pr (cdepth - 1) ((pl, p_i - 1, cdepth - 1) # stack)
      else stack_pop v (insertion_sort v tosort pl pr) stack)"
| "stack_pop v tosort stack =
     (case stack of
        [] \<Rightarrow> tosort
      | (pl, pr, cdepth) # rest \<Rightarrow>
          if cdepth < 0 then stack_pop v (aheapsort v tosort pl (pr + 1 - pl)) rest
          else quicksort_loop v tosort pl pr cdepth rest)"
  by pat_completeness auto

termination
proof (relation "measure (\<lambda>x. case x of
    Inl (v, tosort, pl, pr, cdepth, stack) \<Rightarrow> 4 * (pr + 1 - pl) + 2 + sum_list (map range_weight stack)
  | Inr (v, tosort, stack) \<Rightarrow> sum_list (map range_weight stack))", goal_cases)
  case 1
  show ?case by simp
next
  case (2 v tosort pl pr cdepth stack x xa y)
  have "pl + 1 < pr"
    using 2(1) by (simp add: SMALL_QUICKSORT_def)
  from partition_bounds [OF this, of v tosort] have "pl < y \<and> y < pr"
    using 2(2,3) by (metis snd_conv)
  then show ?case
    by (auto simp add: range_weight_def)
next
  case (3 v tosort pl pr cdepth stack x xa y)
  have "pl + 1 < pr"
    using 3(1) by (simp add: SMALL_QUICKSORT_def)
  from partition_bounds [OF this, of v tosort] have "pl < y \<and> y < pr"
    using 3(2,3) by (metis snd_conv)
  then show ?case
    by (auto simp add: range_weight_def)
next
  case 4
  then show ?case
    by simp
next
  case 5
  then show ?case
    by (auto simp add: range_weight_def)
next
  case 6
  then show ?case
    by (auto simp add: range_weight_def)
qed

declare quicksort_loop.simps [simp del]

declare stack_pop.simps [simp del]

text \<open>\<^verbatim>\<open>cdepth = npy_get_msb(num) * 2\<close>, and the whole array as the first range.\<close>

definition aquicksort :: "cell list \<Rightarrow> nat list" where
  "aquicksort v =
     stack_pop v [0 ..< length v] [(0, length v - 1, 2 * int (npy_get_msb (length v)))]"

text \<open>
  pandas' \<^verbatim>\<open>nargsort\<close> around it: \<^verbatim>\<open>non_nan_idx[non_nans.argsort(kind='quicksort')]\<close>,
  followed by the positions of the missing keys.
\<close>

definition nargsort :: "cell list \<Rightarrow> nat list" where
  "nargsort items =
     (let idx = [0 ..< length items];
          non_nan_idx = filter (\<lambda>i. items ! i \<noteq> NaN) idx;
          nan_idx = filter (\<lambda>i. items ! i = NaN) idx;
          non_nans = map (\<lambda>i. items ! i) non_nan_idx
      in map (\<lambda>i. non_nan_idx ! i) (aquicksort non_nans) @ nan_idx)"

section \<open>create\_unified\_dataset\<close>

text \<open>Float addition, and the sum of a group, which skips missing cells.\<close>

fun fadd :: "cell \<Rightarrow> cell \<Rightarrow> cell" where
  "fadd (Num x) (Num y) = Num (x + y)"
| "fadd (Num x) PosInf = PosInf"
| "fadd (Num x) NegInf = NegInf"
| "fadd PosInf (Num y) = PosInf"
| "fadd NegInf (Num y) = NegInf"
| "fadd PosInf PosInf = PosInf"
| "fadd NegInf NegInf = NegInf"
| "fadd a b = NaN"

definition group_sum :: "cell list \<Rightarrow> error + cell" where
  "group_sum vs =
     (if list_all is_number vs then Inr (fold fadd (filter (\<lambda>v. v \<noteq> NaN) vs) (Num 0))
      else Inl TypeError)"

text \<open>
  \<^verbatim>\<open>df.groupby(key).agg({c: 'sum', ...}).reset_index()\<close>: one row for each value of
  the key column, in ascending order of the key; rows with a missing key are left
  out. The result has the key column and the summed columns, labelled from 0.
\<close>

definition group_rows :: "string \<Rightarrow> cell \<Rightarrow> row list \<Rightarrow> row list" where
  "group_rows key k rs = filter (\<lambda>r. cell_at key (snd r) = k) rs"

definition group_keys :: "cell list \<Rightarrow> cell list" where
  "group_keys ks = sort_key sort_rank (remdups (filter (\<lambda>k. k \<noteq> NaN) ks))"

definition aggregate :: "string \<Rightarrow> string list \<Rightarrow> row list \<Rightarrow> cell \<Rightarrow> error + cells" where
  "aggregate key cols rs k =
     and_then
       (traverse (\<lambda>c. and_then (group_sum (map (\<lambda>r. cell_at c (snd r)) (group_rows key k rs)))
                        (\<lambda>s. Inr (c, s))) cols)
       (\<lambda>totals. Inr ((key, k) # totals))"

definition groupby_sum :: "string \<Rightarrow> string list \<Rightarrow> frame \<Rightarrow> error + frame" where
  "groupby_sum key cols df =
     and_then (series df key) (\<lambda>ks.
     and_then (traverse (series df) cols) (\<lambda>present.
     if comparable ks
     then and_then (traverse (aggregate key cols (rows df)) (group_keys ks)) (\<lambda>rs.
          Inr \<lparr>columns = key # cols, rows = enumerate 0 rs\<rparr>)
     else Inl TypeError))"

text \<open>
  \<^verbatim>\<open>pd.merge(left, right, on=key, how='outer')\<close>: the keys of both frames in ascending
  order; for each key the left rows that have it paired with the right rows that
  have it, and a row that finds no partner keeps the other side's columns missing.
  A column name that both sides have (the key apart) gets the suffix \<^verbatim>\<open>_x\<close> on the
  left and \<^verbatim>\<open>_y\<close> on the right. pandas refuses to merge a datetime key with a key
  of another type.
\<close>

definition suffix_x :: "string \<Rightarrow> frame \<Rightarrow> string \<Rightarrow> string" where
  "suffix_x key r c = (if c \<noteq> key \<and> c \<in> set (columns r) then c @ ''_x'' else c)"

definition suffix_y :: "frame \<Rightarrow> string \<Rightarrow> string" where
  "suffix_y l c = (if c \<in> set (columns l) then c @ ''_y'' else c)"

text \<open>The cells of a merged row: the left frame's columns, then the right frame's without the key.\<close>

definition left_part :: "string \<Rightarrow> frame \<Rightarrow> frame \<Rightarrow> (string \<Rightarrow> cell) \<Rightarrow> cells" where
  "left_part key l r f = map (\<lambda>c. (suffix_x key r c, f c)) (columns l)"

definition right_part :: "string \<Rightarrow> frame \<Rightarrow> frame \<Rightarrow> (string \<Rightarrow> cell) \<Rightarrow> cells" where
  "right_part key l r f = map (\<lambda>c. (suffix_y l c, f c)) (filter (\<lambda>c. c \<noteq> key) (columns r))"

definition join_key :: "string \<Rightarrow> frame \<Rightarrow> frame \<Rightarrow> cell \<Rightarrow> cells list" where
  "join_key key l r k =
     (let ls = group_rows key k (rows l); rs = group_rows key k (rows r)
      in if rs = []
         then map (\<lambda>x. left_part key l r (\<lambda>c. cell_at c (snd x)) @
                        right_part key l r (\<lambda>c. NaN)) ls
         else if ls = []
         then map (\<lambda>y. left_part key l r (\<lambda>c. if c = key then k else NaN) @
                        right_part key l r (\<lambda>c. cell_at c (snd y))) rs
         else concat (map (\<lambda>x. map (\<lambda>y. left_part key l r (\<lambda>c. cell_at c (snd x)) @
                                          right_part key l r (\<lambda>c. cell_at c (snd y))) rs) ls))"

definition merge_outer :: "string \<Rightarrow> frame \<Rightarrow> frame \<Rightarrow> error + frame" where
  "merge_outer key l r =
     and_then (series l key) (\<lambda>lk.
     and_then (series r key) (\<lambda>rk.
     if comparable (lk @ rk)
     then Inr \<lparr>columns = map (suffix_x key r) (columns l) @
                            map (suffix_y l) (filter (\<lambda>c. c \<noteq> key) (columns r)),
               rows = enumerate 0
                 (concat (map (join_key key l r) (sort_key sort_rank (remdups (lk @ rk)))))\<rparr>
     else Inl MergeError))"

definition create_unified_dataset :: "frame \<Rightarrow> frame \<Rightarrow> error + frame" where
  "create_unified_dataset business_df marketing_df =
     and_then (groupby_sum ''date'' [''spend'', ''attributed revenue'', ''clicks'', ''impression'']
                 marketing_df) (\<lambda>daily_marketing.
     and_then (guarded_ratio daily_marketing ''spend'' ''attributed revenue'' ''spend'' 1) (\<lambda>daily_roas.
     let dm1 = assign ''daily_roas'' daily_roas daily_marketing in
     and_then (guarded_ratio dm1 ''impression'' ''clicks'' ''impression'' 100) (\<lambda>daily_ctr.
     let dm2 = assign ''daily_ctr'' daily_ctr dm1 in
     and_then (merge_outer ''date'' business_df dm2) (\<lambda>unified_df.
     let u1 = fillna0 unified_df in
     and_then (guarded_ratio u1 ''spend'' ''total_revenue'' ''spend'' 1) (\<lambda>marketing_efficiency.
     Inr (assign ''marketing_efficiency'' marketing_efficiency u1))))))"

definition col :: "frame \<Rightarrow> string \<Rightarrow> cell list" where
  "col df c = map (\<lambda>r. cell_at c (snd r)) (rows df)"

definition labels :: "frame \<Rightarrow> nat list" where
  "labels df = map fst (rows df)"

definition has_key :: "string \<Rightarrow> frame \<Rightarrow> bool" where
  "has_key k df \<longleftrightarrow> list_all (\<lambda>r. k \<in> fst ` set (snd r)) (rows df)"

fun is_positive :: "cell \<Rightarrow> bool" where
  "is_positive (Num x) = (0 < x)"
| "is_positive PosInf = True"
| "is_positive c = False"

definition ads_example :: frame where
  "ads_example =
     \<lparr>columns = [''date'', ''impression'', ''clicks'', ''spend'', ''attributed revenue''],
      rows = [(0, [(''date'', Date 1), (''impression'', Num 2000), (''clicks'', Num 40),
                   (''spend'', Num 100), (''attributed revenue'', Num 150)]),
              (1, [(''date'', Date 1), (''impression'', Num 0), (''clicks'', Num 7),
                   (''spend'', Num 3), (''attributed revenue'', Num 9)])]\<rparr>"

definition ads_example_clean :: frame where
  "ads_example_clean =
     \<lparr>columns = [''date'', ''impression'', ''clicks'', ''spend'', ''attributed revenue'',
                 ''platform'', ''ctr'', ''cpc'', ''roas'', ''cpm''],
      rows = [(0, [(''date'', Date 1), (''impression'', Num 2000), (''clicks'', Num 40),
                   (''spend'', Num 100), (''attributed revenue'', Num 150),
                   (''platform'', Text ''Facebook''), (''ctr'', Num 2), (''cpc'', Num (5 / 2)),
                   (''roas'', Num (3 / 2)), (''cpm'', Num 50)])]\<rparr>"

definition business_dup :: frame where
  "business_dup =
     \<lparr>columns = [''date'', ''total revenue'', ''gross profit'', ''# of orders''],
      rows = [(0, [(''date'', Date 1), (''total revenue'', Num 1000), (''gross profit'', Num 400),
                   (''# of orders'', Num 10)]),
              (1, [(''date'', Date 1), (''total revenue'', Num 500), (''gross profit'', Num 100),
                   (''# of orders'', Num 5)])]\<rparr>"

definition business_dup_clean :: frame where
  "business_dup_clean =
     \<lparr>columns = [''date'', ''total_revenue'', ''gross_profit'', ''num_of_orders'',
                 ''profit_margin'', ''avg_order_value''],
      rows = [(0, [(''date'', Date 1), (''total_revenue'', Num 1000), (''gross_profit'', Num 400),
                   (''num_of_orders'', Num 10), (''profit_margin'', Num 40),
                   (''avg_order_value'', Num 100)])]\<rparr>"

definition business_zero :: frame where
  "business_zero =
     \<lparr>columns = [''date'', ''total revenue'', ''gross profit'', ''# of orders''],
      rows = [(0, [(''date'', Date 1), (''total revenue'', Num 0), (''gross profit'', Num 400),
                   (''# of orders'', Num 0)])]\<rparr>"

definition business_zero_clean :: frame where
  "business_zero_clean =
     \<lparr>columns = [''date'', ''total_revenue'', ''gross_profit'', ''num_of_orders'',
                 ''profit_margin'', ''avg_order_value''],
      rows = [(0, [(''date'', Date 1), (''total_revenue'', Num 0), (''gross_profit'', Num 400),
                   (''num_of_orders'', Num 0), (''profit_margin'', PosInf),
                   (''avg_order_value'', NaN)])]\<rparr>"



definition ads_no_impression :: frame where
  "ads_no_impression =
     \<lparr>columns = [''date'', ''clicks'', ''spend'', ''attributed revenue''],
      rows = [(0, [(''date'', Date 1), (''clicks'', Num 40), (''spend'', Num 100),
                   (''attributed revenue'', Num 150)])]\<rparr>"

text \<open>
  A sort that meets \<open>argsort_spec\<close> and keeps rows with equal keys in their input
  order, as \<^verbatim>\<open>kind='stable'\<close> does.
\<close>

definition stable_argsort :: "cell list \<Rightarrow> nat list" where
  "stable_argsort ks = sort_key (\<lambda>i. sort_rank (ks ! i)) [0..<length ks]"

definition ad_record :: "int \<Rightarrow> frame" where
  "ad_record t =
     \<lparr>columns = [''date'', ''impression'', ''clicks'', ''spend'', ''attributed revenue''],
      rows = [(0, [(''date'', Date t), (''impression'', Num 2000), (''clicks'', Num 40),
                   (''spend'', Num 100), (''attributed revenue'', Num 150)])]\<rparr>"

definition no_ads :: frame where
  "no_ads =
     \<lparr>columns = [''date'', ''impression'', ''clicks'', ''spend'', ''attributed revenue''],
      rows = []\<rparr>"

definition business_record :: "int \<Rightarrow> frame" where
  "business_record t =
     \<lparr>columns = [''date'', ''total_revenue'', ''gross_profit'', ''num_of_orders''],
      rows = [(0, [(''date'', Date t), (''total_revenue'', Num 1000), (''gross_profit'', Num 400),
                   (''num_of_orders'', Num 10)])]\<rparr>"

definition ad_record_clean :: "int \<Rightarrow> frame" where
  "ad_record_clean t =
     \<lparr>columns = [''date'', ''impression'', ''clicks'', ''spend'', ''attributed revenue'',
                 ''platform'', ''ctr'', ''cpc'', ''roas'', ''cpm''],
      rows = [(0, [(''date'', Date t), (''impression'', Num 2000), (''clicks'', Num 40),
                   (''spend'', Num 100), (''attributed revenue'', Num 150),
                   (''platform'', Text ''Facebook''), (''ctr'', Num 2), (''cpc'', Num (5 / 2)),
                   (''roas'', Num (3 / 2)), (''cpm'', Num 50)])]\<rparr>"

definition no_ads_clean :: frame where
  "no_ads_clean =
     \<lparr>columns = [''date'', ''impression'', ''clicks'', ''spend'', ''attributed revenue'',
                 ''platform'', ''ctr'', ''cpc'', ''roas'', ''cpm''],
      rows = []\<rparr>"

definition business_record_clean :: "int \<Rightarrow> frame" where
  "business_record_clean t =
     \<lparr>columns = [''date'', ''total_revenue'', ''gross_profit'', ''num_of_orders'',
                 ''profit_margin'', ''avg_order_value''],
      rows = [(0, [(''date'', Date t), (''total_revenue'', Num 1000), (''gross_profit'', Num 400),
                   (''num_of_orders'', Num 10), (''profit_margin'', Num 40),
                   (''avg_order_value'', Num 100)])]\<rparr>"

definition unified_record :: "int \<Rightarrow> frame" where
  "unified_record t =
     \<lparr>columns = [''date'', ''total_revenue'', ''gross_profit'', ''num_of_orders'',
                 ''profit_margin'', ''avg_order_value'', ''spend'', ''attributed revenue'',
                 ''clicks'', ''impression'', ''daily_roas'', ''daily_ctr'',
                 ''marketing_efficiency''],
      rows = [(0, [(''date'', Date t), (''total_revenue'', Num 1000), (''gross_profit'', Num 400),
                   (''num_of_orders'', Num 10), (''profit_margin'', Num 40),
                   (''avg_order_value'', Num 100), (''spend'', Num 100),
                   (''attributed revenue'', Num 150), (''clicks'', Num 40),
                   (''impression'', Num 2000), (''daily_roas'', Num (3 / 2)),
                   (''daily_ctr'', Num 2), (''marketing_efficiency'', Num 10)])]\<rparr>"

text \<open>The columns that the marketing side brings into the unified table.\<close>

definition marketing_columns :: "string list" where
  "marketing_columns =
     [''spend'', ''attributed revenue'', ''clicks'', ''impression'', ''daily_roas'', ''daily_ctr'']"

definition business_two_days :: frame where
  "business_two_days =
     \<lparr>columns = [''date'', ''total revenue'', ''gross profit'', ''# of orders''],
      rows = [(0, [(''date'', Date 1), (''total revenue'', Num 1000), (''gross profit'', Num 400),
                   (''# of orders'', Num 10)]),
              (1, [(''date'', Date 2), (''total revenue'', Num 500), (''gross profit'', Num 100),
                   (''# of orders'', Num 5)])]\<rparr>"

definition ad_two_days :: frame where
  "ad_two_days =
     \<lparr>columns = [''date'', ''impression'', ''clicks'', ''spend'', ''attributed revenue''],
      rows = [(0, [(''date'', Date 1), (''impression'', Num 2000), (''clicks'', Num 40),
                   (''spend'', Num 100), (''attributed revenue'', Num 150)]),
              (1, [(''date'', Date 3), (''impression'', Num 500), (''clicks'', Num 10),
                   (''spend'', Num 100), (''attributed revenue'', Num 150)])]\<rparr>"

definition business_two_days_clean :: frame where
  "business_two_days_clean =
     \<lparr>columns = [''date'', ''total_revenue'', ''gross_profit'', ''num_of_orders'',
                 ''profit_margin'', ''avg_order_value''],
      rows = [(0, [(''date'', Date 1), (''total_revenue'', Num 1000), (''gross_profit'', Num 400),
                   (''num_of_orders'', Num 10), (''profit_margin'', Num 40),
                   (''avg_order_value'', Num 100)]),
              (1, [(''date'', Date 2), (''total_revenue'', Num 500), (''gross_profit'', Num 100),
                   (''num_of_orders'', Num 5), (''profit_margin'', Num 20),
                   (''avg_order_value'', Num 100)])]\<rparr>"

definition ad_two_days_clean :: frame where
  "ad_two_days_clean =
     \<lparr>columns = [''date'', ''impression'', ''clicks'', ''spend'', ''attributed revenue'',
                 ''platform'', ''ctr'', ''cpc'', ''roas'', ''cpm''],
      rows = [(0, [(''date'', Date 1), (''impression'', Num 2000), (''clicks'', Num 40),
                   (''spend'', Num 100), (''attributed revenue'', Num 150),
                   (''platform'', Text ''Facebook''), (''ctr'', Num 2), (''cpc'', Num (5 / 2)),
                   (''roas'', Num (3 / 2)), (''cpm'', Num 50)]),
              (1, [(''date'', Date 3), (''impression'', Num 500), (''clicks'', Num 10),
                   (''spend'', Num 100), (''attributed revenue'', Num 150),
                   (''platform'', Text ''Facebook''), (''ctr'', Num 2), (''cpc'', Num 10),
                   (''roas'', Num (3 / 2)), (''cpm'', Num 200)])]\<rparr>"

definition unified_three_days :: frame where
  "unified_three_days =
     \<lparr>columns = [''date'', ''total_revenue'', ''gross_profit'', ''num_of_orders'',
                 ''profit_margin'', ''avg_order_value'', ''spend'', ''attributed revenue'',
                 ''clicks'', ''impression'', ''daily_roas'', ''daily_ctr'',
                 ''marketing_efficiency''],
      rows = [(0, [(''date'', Date 1), (''total_revenue'', Num 1000), (''gross_profit'', Num 400),
                   (''num_of_orders'', Num 10), (''profit_margin'', Num 40),
                   (''avg_order_value'', Num 100), (''spend'', Num 100),
                   (''attributed revenue'', Num 150), (''clicks'', Num 40),
                   (''impression'', Num 2000), (''daily_roas'', Num (3 / 2)),
                   (''daily_ctr'', Num 2), (''marketing_efficiency'', Num 10)]),
              (1, [(''date'', Date 2), (''total_revenue'', Num 500), (''gross_profit'', Num 100),
                   (''num_of_orders'', Num 5), (''profit_margin'', Num 20),
                   (''avg_order_value'', Num 100), (''spend'', Num 0),
                   (''attributed revenue'', Num 0), (''clicks'', Num 0), (''impression'', Num 0),
                   (''daily_roas'', Num 0), (''daily_ctr'', Num 0),
                   (''marketing_efficiency'', Num 0)]),
              (2, [(''date'', Date 3), (''total_revenue'', Num 0), (''gross_profit'', Num 0),
                   (''num_of_orders'', Num 0), (''profit_margin'', Num 0),
                   (''avg_order_value'', Num 0), (''spend'', Num 100),
                   (''attributed revenue'', Num 150), (''clicks'', Num 10),
                   (''impression'', Num 500), (''daily_roas'', Num (3 / 2)),
                   (''daily_ctr'', Num 2), (''marketing_efficiency'', Num 0)])]\<rparr>"

text \<open>
  Three platform reports of two records each: the days are out of order, one day is
  in two reports, and one Google record has no impression.
\<close>

definition facebook_report :: frame where
  "facebook_report =
     \<lparr>columns = [''date'', ''impression'', ''clicks'', ''spend'', ''attributed revenue''],
      rows = [(0, [(''date'', Date 3), (''impression'', Num 2000), (''clicks'', Num 40),
                   (''spend'', Num 100), (''attributed revenue'', Num 150)]),
              (1, [(''date'', Date 1), (''impression'', Num 1000), (''clicks'', Num 20),
                   (''spend'', Num 50), (''attributed revenue'', Num 100)])]\<rparr>"

definition google_report :: frame where
  "google_report =
     \<lparr>columns = [''date'', ''impression'', ''clicks'', ''spend'', ''attributed revenue''],
      rows = [(0, [(''date'', Date 2), (''impression'', Num 4000), (''clicks'', Num 100),
                   (''spend'', Num 200), (''attributed revenue'', Num 500)]),
              (1, [(''date'', Date 2), (''impression'', Num 0), (''clicks'', Num 0),
                   (''spend'', Num 10), (''attributed revenue'', Num 0)])]\<rparr>"

definition tiktok_report :: frame where
  "tiktok_report =
     \<lparr>columns = [''date'', ''impression'', ''clicks'', ''spend'', ''attributed revenue''],
      rows = [(0, [(''date'', Date 1), (''impression'', Num 500), (''clicks'', Num 10),
                   (''spend'', Num 20), (''attributed revenue'', Num 30)]),
              (1, [(''date'', Date 4), (''impression'', Num 500), (''clicks'', Num 10),
                   (''spend'', Num 20), (''attributed revenue'', Num 30)])]\<rparr>"

definition facebook_report_clean :: frame where
  "facebook_report_clean =
     \<lparr>columns = [''date'', ''impression'', ''clicks'', ''spend'', ''attributed revenue'',
                 ''platform'', ''ctr'', ''cpc'', ''roas'', ''cpm''],
      rows = [(0, [(''date'', Date 3), (''impression'', Num 2000), (''clicks'', Num 40),
                   (''spend'', Num 100), (''attributed revenue'', Num 150),
                   (''platform'', Text ''Facebook''), (''ctr'', Num 2), (''cpc'', Num (5 / 2)),
                   (''roas'', Num (3 / 2)), (''cpm'', Num 50)]),
              (1, [(''date'', Date 1), (''impression'', Num 1000), (''clicks'', Num 20),
                   (''spend'', Num 50), (''attributed revenue'', Num 100),
                   (''platform'', Text ''Facebook''), (''ctr'', Num 2), (''cpc'', Num (5 / 2)),
                   (''roas'', Num 2), (''cpm'', Num 50)])]\<rparr>"

definition google_report_clean :: frame where
  "google_report_clean =
     \<lparr>columns = [''date'', ''impression'', ''clicks'', ''spend'', ''attributed revenue'',
                 ''platform'', ''ctr'', ''cpc'', ''roas'', ''cpm''],
      rows = [(0, [(''date'', Date 2), (''impression'', Num 4000), (''clicks'', Num 100),
                   (''spend'', Num 200), (''attributed revenue'', Num 500),
                   (''platform'', Text ''Google''), (''ctr'', Num (5 / 2)), (''cpc'', Num 2),
                   (''roas'', Num (5 / 2)), (''cpm'', Num 50)])]\<rparr>"

definition tiktok_report_clean :: frame where
  "tiktok_report_clean =
     \<lparr>columns = [''date'', ''impression'', ''clicks'', ''spend'', ''attributed revenue'',
                 ''platform'', ''ctr'', ''cpc'', ''roas'', ''cpm''],
      rows = [(0, [(''date'', Date 1), (''impression'', Num 500), (''clicks'', Num 10),
                   (''spend'', Num 20), (''attributed revenue'', Num 30),
                   (''platform'', Text ''TikTok''), (''ctr'', Num 2), (''cpc'', Num 2),
                   (''roas'', Num (3 / 2)), (''cpm'', Num 40)]),
              (1, [(''date'', Date 4), (''impression'', Num 500), (''clicks'', Num 10),
                   (''spend'', Num 20), (''attributed revenue'', Num 30),
                   (''platform'', Text ''TikTok''), (''ctr'', Num 2), (''cpc'', Num 2),
                   (''roas'', Num (3 / 2)), (''cpm'', Num 40)])]\<rparr>"

text \<open>
  The five records that are left, labelled \<open>0, 1, 2, 3, 4\<close> in the order Facebook,
  Google, TikTok by \<^verbatim>\<open>pd.concat\<close>, in ascending order of date.
\<close>

definition reports_combined :: frame where
  "reports_combined =
     \<lparr>columns = [''date'', ''impression'', ''clicks'', ''spend'', ''attributed revenue'',
                 ''platform'', ''ctr'', ''cpc'', ''roas'', ''cpm''],
      rows = [(1, snd (rows facebook_report_clean ! 1)),
              (3, snd (rows tiktok_report_clean ! 0)),
              (2, snd (rows google_report_clean ! 0)),
              (0, snd (rows facebook_report_clean ! 0)),
              (4, snd (rows tiktok_report_clean ! 1))]\<rparr>"

text \<open>
  A day with six campaign records on each platform: eighteen records of one date,
  labelled \<open>0 .. 5\<close> for Facebook, \<open>6 .. 11\<close> for Google and \<open>12 .. 17\<close> for
  TikTok by \<^verbatim>\<open>pd.concat\<close>.
\<close>

definition campaign_record :: cells where
  "campaign_record =
     [(''date'', Date 1), (''impression'', Num 2000), (''clicks'', Num 40),
      (''spend'', Num 100), (''attributed revenue'', Num 150)]"

definition one_day_report :: frame where
  "one_day_report =
     \<lparr>columns = [''date'', ''impression'', ''clicks'', ''spend'', ''attributed revenue''],
      rows = [(0, campaign_record), (1, campaign_record), (2, campaign_record),
              (3, campaign_record), (4, campaign_record), (5, campaign_record)]\<rparr>"

definition campaign_record_clean :: "string \<Rightarrow> cells" where
  "campaign_record_clean platform_name =
     [(''date'', Date 1), (''impression'', Num 2000), (''clicks'', Num 40),
      (''spend'', Num 100), (''attributed revenue'', Num 150),
      (''platform'', Text platform_name), (''ctr'', Num 2), (''cpc'', Num (5 / 2)),
      (''roas'', Num (3 / 2)), (''cpm'', Num 50)]"

definition one_day_report_clean :: "string \<Rightarrow> frame" where
  "one_day_report_clean platform_name =
     \<lparr>columns = [''date'', ''impression'', ''clicks'', ''spend'', ''attributed revenue'',
                 ''platform'', ''ctr'', ''cpc'', ''roas'', ''cpm''],
      rows = map (\<lambda>i. (i, campaign_record_clean platform_name)) [0, 1, 2, 3, 4, 5]\<rparr>"

definition platform_of :: "nat \<Rightarrow> string" where
  "platform_of i = (if i < 6 then ''Facebook'' else if i < 12 then ''Google'' else ''TikTok'')"

definition one_day_order :: "nat list" where
  "one_day_order = [0, 15, 14, 13, 12, 11, 10, 9, 8, 7, 6, 5, 4, 3, 2, 1, 16, 17]"

definition one_day_combined :: frame where
  "one_day_combined =
     \<lparr>columns = [''date'', ''impression'', ''clicks'', ''spend'', ''attributed revenue'',
                 ''platform'', ''ctr'', ''cpc'', ''roas'', ''cpm''],
      rows = map (\<lambda>i. (i, campaign_record_clean (platform_of i))) one_day_order\<rparr>"

section \<open>Basic facts\<close>



lemma and_then_Inr [simp]: "and_then (Inr x) f = f x"
  by (simp add: and_then_def)

lemma and_then_Inl [simp]: "and_then (Inl e) f = Inl e"
  by (simp add: and_then_def)

lemma and_then_weak_cong: "m = m' \<Longrightarrow> and_then m f = and_then m' f"
  by simp

lemma and_then_assoc: "and_then (and_then m f) g = and_then m (\<lambda>x. and_then (f x) g)"
  by (cases m; simp)

lemma and_then_eq_Inr: "and_then m f = Inr y \<longleftrightarrow> (\<exists>x. m = Inr x \<and> f x = Inr y)"
  by (cases m; simp)

lemma traverse_Inr:
  "traverse f xs = Inr ys \<Longrightarrow> list_all2 (\<lambda>x y. f x = Inr y) xs ys"
  by (induction xs arbitrary: ys; auto split: sum.splits)

lemma traverse_length: "traverse f xs = Inr ys \<Longrightarrow> length ys = length xs"
  by (drule traverse_Inr, simp add: list_all2_lengthD)

lemma traverse_Inl_iff:
  "(\<exists>e. traverse f xs = Inl e) \<longleftrightarrow> (\<exists>x \<in> set xs. \<exists>e. f x = Inl e)"
  by (induction xs; auto split: sum.splits)

lemma series_Inr: "series df c = Inr s \<Longrightarrow> s = col df c \<and> c \<in> set (columns df)"
  by (auto simp: series_def col_def split: if_splits)

lemma length_col [simp]: "length (col df c) = length (rows df)"
  by (simp add: col_def)

lemma map_of_overwrite:
  "map_of (map (\<lambda>(k, x). (k, if k = c then v else x)) cs) k =
     (if k = c then map_option (\<lambda>x. v) (map_of cs k) else map_of cs k)"
  by (induction cs; auto)

lemma cell_at_set_cell_same [simp]: "cell_at c (set_cell c v cs) = v"
proof (cases "c \<in> set (map fst cs)")
  case True
  then obtain x where "map_of cs c = Some x"
    by (metis map_of_eq_None_iff not_Some_eq set_map)
  with True show ?thesis
    by (simp add: cell_at_def set_cell_def map_of_overwrite)
next
  case False
  then have "map_of cs c = None"
    by (simp add: map_of_eq_None_iff)
  with False show ?thesis
    by (simp add: cell_at_def set_cell_def map_add_def)
qed

lemma cell_at_set_cell_other [simp]: "k \<noteq> c \<Longrightarrow> cell_at k (set_cell c v cs) = cell_at k cs"
  by (simp add: cell_at_def set_cell_def map_of_overwrite map_add_def split: option.splits)

lemma map2_snd_only: "length vs = length rs \<Longrightarrow> map2 (\<lambda>v r. f r) vs rs = map f rs"
  by (induction vs rs rule: list_induct2; simp)

lemma map2_fst_only: "length vs = length rs \<Longrightarrow> map2 (\<lambda>v r. f v) vs rs = map f vs"
  by (induction vs rs rule: list_induct2; simp)

lemma rows_assign: "rows (assign c vs df) = map2 (\<lambda>v r. (fst r, set_cell c v (snd r))) vs (rows df)"
  by (simp add: assign_def)

lemma length_rows_assign [simp]:
  "length vs = length (rows df) \<Longrightarrow> length (rows (assign c vs df)) = length (rows df)"
  by (simp add: rows_assign)

lemma map2_set_cell_labels:
  "length vs = length rs \<Longrightarrow>
   map fst (map2 (\<lambda>v r. (fst r, set_cell c v (snd r))) vs rs) = map fst rs"
  by (induction vs rs rule: list_induct2; simp)

lemma map2_set_cell_same:
  "length vs = length rs \<Longrightarrow>
   map (\<lambda>r. cell_at c (snd r)) (map2 (\<lambda>v r. (fst r, set_cell c v (snd r))) vs rs) = vs"
  by (induction vs rs rule: list_induct2; simp)

lemma map2_set_cell_other:
  "length vs = length rs \<Longrightarrow> k \<noteq> c \<Longrightarrow>
   map (\<lambda>r. cell_at k (snd r)) (map2 (\<lambda>v r. (fst r, set_cell c v (snd r))) vs rs) =
   map (\<lambda>r. cell_at k (snd r)) rs"
  by (induction vs rs rule: list_induct2; simp)

lemma labels_assign [simp]:
  "length vs = length (rows df) \<Longrightarrow> labels (assign c vs df) = labels df"
  unfolding labels_def rows_assign by (rule map2_set_cell_labels)

lemma col_assign_same [simp]:
  "length vs = length (rows df) \<Longrightarrow> col (assign c vs df) c = vs"
  unfolding col_def rows_assign by (rule map2_set_cell_same)

lemma col_assign_other [simp]:
  "length vs = length (rows df) \<Longrightarrow> k \<noteq> c \<Longrightarrow> col (assign c vs df) k = col df k"
  unfolding col_def rows_assign by (rule map2_set_cell_other)

lemma columns_assign: "set (columns (assign c vs df)) = insert c (set (columns df))"
  by (auto simp: assign_def)

lemma keys_set_cell: "fst ` set (set_cell c v cs) = insert c (fst ` set cs)"
  by (auto simp: set_cell_def image_image split_def)

lemma map2_set_cell_keys:
  "length vs = length rs \<Longrightarrow>
   list_all (\<lambda>r. k \<in> fst ` set (snd r)) (map2 (\<lambda>v r. (fst r, set_cell c v (snd r))) vs rs) =
   (k = c \<or> list_all (\<lambda>r. k \<in> fst ` set (snd r)) rs \<or> rs = [])"
  by (induction vs rs rule: list_induct2; auto simp: keys_set_cell)

lemma has_key_assign_same [simp]:
  "length vs = length (rows df) \<Longrightarrow> has_key c (assign c vs df)"
  by (simp add: has_key_def rows_assign map2_set_cell_keys)

lemma has_key_assign_other [simp]:
  "length vs = length (rows df) \<Longrightarrow> has_key k df \<Longrightarrow> has_key k (assign c vs df)"
  by (simp add: has_key_def rows_assign map2_set_cell_keys)

lemma columns_assign_other [simp]:
  "k \<in> set (columns (assign c vs df)) \<longleftrightarrow> k = c \<or> k \<in> set (columns df)"
  by (auto simp: assign_def)

lemma to_numeric1_idem [simp]: "to_numeric1 (to_numeric1 c) = to_numeric1 c"
  by (cases c; simp)

lemma coerce_column_Inr:
  assumes "coerce_column c df = Inr df'"
  shows "labels df' = labels df"
    and "set (columns df') = set (columns df)"
    and "col df' k = (if k = c \<and> c \<in> set (columns df) then map to_numeric1 (col df c) else col df k)"
    and "c \<in> set (columns df) \<Longrightarrow> has_key c df'"
    and "has_key k df \<Longrightarrow> has_key k df'"
  using assms
  by (auto simp: coerce_column_def and_then_eq_Inr columns_assign dest!: series_Inr split: if_splits)+

lemma coerce_columns_Inr:
  assumes "coerce_columns cs df = Inr df'"
  shows "labels df' = labels df \<and> set (columns df') = set (columns df) \<and>
         (\<forall>k. col df' k = (if k \<in> set cs \<and> k \<in> set (columns df) then map to_numeric1 (col df k) else col df k)) \<and>
         (\<forall>k. k \<in> set cs \<and> k \<in> set (columns df) \<or> has_key k df \<longrightarrow> has_key k df')"
  using assms
proof (induction cs arbitrary: df)
  case Nil
  then show ?case by simp
next
  case (Cons c cs)
  from Cons.prems obtain df1 where 1: "coerce_column c df = Inr df1" and 2: "coerce_columns cs df1 = Inr df'"
    by (auto simp: and_then_eq_Inr)
  note a = coerce_column_Inr [OF 1]
  note b = Cons.IH [OF 2]
  show ?case
    using a(1,2,4,5) b a(3)
    by (auto simp: o_def)
qed

lemma gt0_Inr: "gt0 c = Inr b \<Longrightarrow> b = is_positive c"
  by (cases c; auto)

lemma traverse_Inr_map:
  "traverse f xs = Inr ys \<Longrightarrow> (\<And>x y. f x = Inr y \<Longrightarrow> y = h x) \<Longrightarrow> ys = map h xs"
  by (induction xs arbitrary: ys; auto split: sum.splits)

lemma traverse_Inr_all:
  "traverse f xs = Inr ys \<Longrightarrow> x \<in> set xs \<Longrightarrow> \<exists>y. f x = Inr y"
  by (induction xs arbitrary: ys; auto split: sum.splits)

lemma to_datetime1_Inr: "to_datetime1 c = Inr y \<Longrightarrow> y = c \<and> (c = NaN \<or> (\<exists>t. c = Date t))"
  by (cases c; auto)

lemma labels_fillna0 [simp]: "labels (fillna0 df) = labels df"
  by (simp add: labels_def fillna0_def o_def)

lemma columns_fillna0 [simp]: "columns (fillna0 df) = columns df"
  by (simp add: fillna0_def)

lemma length_rows_fillna0 [simp]: "length (rows (fillna0 df)) = length (rows df)"
  by (simp add: fillna0_def)

lemma cell_at_fill:
  "k \<in> fst ` set cs \<Longrightarrow> cell_at k (map (\<lambda>(k, v). (k, fill0 v)) cs) = fill0 (cell_at k cs)"
  by (induction cs; auto simp: cell_at_def)

lemma col_fillna0: "has_key k df \<Longrightarrow> col (fillna0 df) k = map fill0 (col df k)"
  by (simp add: col_def fillna0_def has_key_def list_all_iff cell_at_fill)

lemma has_key_fillna0 [simp]: "has_key k (fillna0 df) = has_key k df"
  by (simp add: has_key_def fillna0_def list_all_iff image_image split_def)

lemma guarded_ratio_length:
  assumes "guarded_ratio df g a b k = Inr vs"
  shows "length vs = length (rows df)"
proof -
  from assms obtain sg cond sa sb q where
    sg: "series df g = Inr sg" and cond: "traverse gt0 sg = Inr cond" and
    sa: "series df a = Inr sa" and sb: "series df b = Inr sb" and q: "sdiv sa sb = Inr q" and
    vs: "vs = np_where0 cond (map (round2 \<circ> scale k) q)"
    by (auto simp: guarded_ratio_def and_then_eq_Inr)
  have "length cond = length (rows df)"
    using traverse_length [OF cond] series_Inr [OF sg] by simp
  moreover have "length q = length (rows df)"
    using traverse_length [OF q [unfolded sdiv_def]] series_Inr [OF sa] series_Inr [OF sb]
    by simp
  ultimately show ?thesis
    by (simp add: vs np_where0_def)
qed

lemma guarded_ratio_column:
  "guarded_ratio df g a b k = Inr vs \<Longrightarrow> g \<in> set (columns df) \<and> a \<in> set (columns df) \<and> b \<in> set (columns df)"
  by (auto simp: guarded_ratio_def and_then_eq_Inr dest!: series_Inr)

lemma select_filter: "map snd (filter fst (zip (map P xs) xs)) = filter P xs"
  by (induction xs; simp)

lemma map_pair_eqI:
  assumes "map f xs = map f' ys" and "map g xs = map g' ys"
  shows "map (\<lambda>r. (f r, g r)) xs = map (\<lambda>r. (f' r, g' r)) ys"
proof -
  have "map (\<lambda>r. (f r, g r)) xs = zip (map f xs) (map g xs)"
    by (simp add: zip_map_map zip_same_conv_map)
  also have "\<dots> = zip (map f' ys) (map g' ys)"
    by (simp only: assms)
  also have "\<dots> = map (\<lambda>r. (f' r, g' r)) ys"
    by (simp add: zip_map_map zip_same_conv_map)
  finally show ?thesis .
qed

lemma zip_labels_col:
  "zip (labels df) (col df c) = map (\<lambda>r. (fst r, cell_at c (snd r))) (rows df)"
  by (simp add: labels_def col_def zip_map_map zip_same_conv_map)

lemma clean_marketing_data_Inr:
  assumes "clean_marketing_data df p = Inr out"
  obtains df8 where
    "out = df8\<lparr>rows := filter (\<lambda>r. is_positive (cell_at ''impression'' (snd r))) (rows df8)\<rparr>"
    "labels df8 = labels df"
    "col df8 ''impression'' = map (fill0 \<circ> to_numeric1) (col df ''impression'')"
    "col df8 ''date'' = map fill0 (col df ''date'')"
    "list_all (\<lambda>c. c = NaN \<or> (\<exists>t. c = Date t)) (col df ''date'')"
    "''date'' \<in> set (columns df8)"
proof -
  from assms obtain d d' df3 ctr cpc roas cpm imp keep where
    d: "series df ''date'' = Inr d" and d': "to_datetime d = Inr d'" and
    df3: "coerce_columns [''impression'', ''clicks'', ''spend'', ''attributed revenue'']
            (assign ''platform'' (replicate (length (rows (assign ''date'' d' df))) (Text p))
               (assign ''date'' d' df)) = Inr df3" and
    ctr: "guarded_ratio (fillna0 df3) ''impression'' ''clicks'' ''impression'' 100 = Inr ctr" and
    cpc: "guarded_ratio (assign ''ctr'' ctr (fillna0 df3)) ''clicks'' ''spend'' ''clicks'' 1 = Inr cpc" and
    roas: "guarded_ratio (assign ''cpc'' cpc (assign ''ctr'' ctr (fillna0 df3)))
             ''spend'' ''attributed revenue'' ''spend'' 1 = Inr roas" and
    cpm: "guarded_ratio (assign ''roas'' roas (assign ''cpc'' cpc (assign ''ctr'' ctr (fillna0 df3))))
             ''impression'' ''spend'' ''impression'' 1000 = Inr cpm" and
    imp: "series (assign ''cpm'' cpm (assign ''roas'' roas (assign ''cpc'' cpc (assign ''ctr'' ctr (fillna0 df3)))))
             ''impression'' = Inr imp" and
    keep: "traverse gt0 imp = Inr keep" and
    out: "out = select keep (assign ''cpm'' cpm (assign ''roas'' roas (assign ''cpc'' cpc (assign ''ctr'' ctr (fillna0 df3)))))"
    unfolding clean_marketing_data_def Let_def and_then_eq_Inr by blast
  define df1 where "df1 = assign ''date'' d' df"
  define df2 where "df2 = assign ''platform'' (replicate (length (rows df1)) (Text p)) df1"
  define df4 where "df4 = fillna0 df3"
  define df5 where "df5 = assign ''ctr'' ctr df4"
  define df6 where "df6 = assign ''cpc'' cpc df5"
  define df7 where "df7 = assign ''roas'' roas df6"
  define df8 where "df8 = assign ''cpm'' cpm df7"
  note defs = df1_def df2_def df4_def df5_def df6_def df7_def df8_def
  have dd: "d = col df ''date''" using series_Inr [OF d] by simp
  have d'd: "d' = d" using traverse_Inr_map [OF d' [unfolded to_datetime_def], of "\<lambda>c. c"]
    by (auto dest: to_datetime1_Inr)
  have dok: "list_all (\<lambda>c. c = NaN \<or> (\<exists>t. c = Date t)) d"
    using traverse_Inr_all [OF d' [unfolded to_datetime_def]]
    by (auto simp: list_all_iff dest!: to_datetime1_Inr)
  have l1: "length (rows df1) = length (rows df)" "labels df1 = labels df"
    "col df1 ''impression'' = col df ''impression''" "col df1 ''date'' = d" "has_key ''date'' df1"
    by (simp add: df1_def d'd dd)+
  have l2: "length (rows df2) = length (rows df)" "labels df2 = labels df"
    "col df2 ''impression'' = col df ''impression''" "col df2 ''date'' = d" "has_key ''date'' df2"
    by (simp add: df2_def l1)+
  note c3 = coerce_columns_Inr [OF df3 [folded df1_def, folded df2_def]]
  have i4: "''impression'' \<in> set (columns df3)"
    using guarded_ratio_column [OF ctr] by simp
  have l3: "labels df3 = labels df" "col df3 ''impression'' = map to_numeric1 (col df ''impression'')"
    "has_key ''impression'' df3" "col df3 ''date'' = d" "has_key ''date'' df3"
    using c3 i4 l2 by auto+
  have len3: "length (rows df3) = length (rows df)"
    using l3(1) by (simp add: labels_def) (metis length_map)
  have l4: "length (rows df4) = length (rows df)" "labels df4 = labels df"
    "col df4 ''impression'' = map (fill0 \<circ> to_numeric1) (col df ''impression'')"
    "col df4 ''date'' = map fill0 d"
    by (simp add: df4_def l3 len3 col_fillna0)+
  have n5: "length ctr = length (rows df4)"
    using guarded_ratio_length [OF ctr] by (simp add: df4_def)
  have l5: "length (rows df5) = length (rows df)" "labels df5 = labels df"
    "col df5 ''impression'' = map (fill0 \<circ> to_numeric1) (col df ''impression'')"
    "col df5 ''date'' = map fill0 d"
    by (simp add: df5_def l4 n5)+
  have n6: "length cpc = length (rows df5)"
    using guarded_ratio_length [OF cpc] by (simp add: defs)
  have l6: "length (rows df6) = length (rows df)" "labels df6 = labels df"
    "col df6 ''impression'' = map (fill0 \<circ> to_numeric1) (col df ''impression'')"
    "col df6 ''date'' = map fill0 d"
    by (simp add: df6_def l5 n6)+
  have n7: "length roas = length (rows df6)"
    using guarded_ratio_length [OF roas] by (simp add: defs)
  have l7: "length (rows df7) = length (rows df)" "labels df7 = labels df"
    "col df7 ''impression'' = map (fill0 \<circ> to_numeric1) (col df ''impression'')"
    "col df7 ''date'' = map fill0 d"
    by (simp add: df7_def l6 n7)+
  have n8: "length cpm = length (rows df7)"
    using guarded_ratio_length [OF cpm] by (simp add: defs)
  have l8: "length (rows df8) = length (rows df)" "labels df8 = labels df"
    "col df8 ''impression'' = map (fill0 \<circ> to_numeric1) (col df ''impression'')"
    "col df8 ''date'' = map fill0 d"
    by (simp add: df8_def l7 n8)+
  have "imp = col df8 ''impression''"
    using series_Inr [OF imp] by (simp add: defs)
  then have "keep = map (\<lambda>r. is_positive (cell_at ''impression'' (snd r))) (rows df8)"
    using traverse_Inr_map [OF keep, of is_positive] gt0_Inr by (simp add: col_def)
  then have "out = df8\<lparr>rows := filter (\<lambda>r. is_positive (cell_at ''impression'' (snd r))) (rows df8)\<rparr>"
    unfolding out select_def by (simp add: defs select_filter)
  moreover have "''date'' \<in> set (columns df8)"
    using c3 by (simp add: defs)
  ultimately show ?thesis
    using that l8 dok by (simp add: dd)
qed

lemmas eval_simps =
  clean_marketing_data_def series_def to_datetime_def assign_def set_cell_def coerce_column_def
  fillna0_def guarded_ratio_def plain_ratio_def sdiv_def cdiv_def np_where0_def select_def
  cell_at_def rint_def Let_def clean_business_data_def rename_columns_def clean_column_name_def
  str_replace_def drop_duplicates_def

lemma ads_example_cleaned: "clean_marketing_data ads_example ''Facebook'' = Inr ads_example_clean"
  by (simp add: ads_example_def ads_example_clean_def eval_simps cong: and_then_weak_cong)

text \<open>
  Claim C2. Whatever table \<open>clean_marketing_data\<close> returns, every row of it has an
  impression count strictly greater than 0 (a positive number or \<open>+inf\<close>), and a row
  of the input whose impression count is 0 is not among the rows returned, whatever
  its other cells hold. Rows are told apart by their index labels.
\<close>

theorem clean_marketing_data_impressions:
  assumes "clean_marketing_data df platform_name = Inr out"
  shows "(\<forall>r \<in> set (rows out). is_positive (cell_at ''impression'' (snd r))) \<and>
         (distinct (map fst (rows df)) \<longrightarrow>
            (\<forall>r \<in> set (rows df). cell_at ''impression'' (snd r) = Num 0 \<longrightarrow>
               fst r \<notin> fst ` set (rows out)))"
proof -
  from assms obtain df8 where
    out: "out = df8\<lparr>rows := filter (\<lambda>r. is_positive (cell_at ''impression'' (snd r))) (rows df8)\<rparr>" and
    lab: "labels df8 = labels df" and
    imp: "col df8 ''impression'' = map (fill0 \<circ> to_numeric1) (col df ''impression'')"
    by (rule clean_marketing_data_Inr)
  have pos: "\<forall>r \<in> set (rows out). is_positive (cell_at ''impression'' (snd r))"
    by (simp add: out)
  have view: "map (\<lambda>r. (fst r, cell_at ''impression'' (snd r))) (rows df8) =
              map (\<lambda>r. (fst r, fill0 (to_numeric1 (cell_at ''impression'' (snd r))))) (rows df)"
    using lab imp unfolding labels_def col_def
    by (intro map_pair_eqI; simp add: o_def)
  have gone: "fst r \<notin> fst ` set (rows out)"
    if dist: "distinct (map fst (rows df))" and r: "r \<in> set (rows df)"
      and zero: "cell_at ''impression'' (snd r) = Num 0" for r
  proof
    assume "fst r \<in> fst ` set (rows out)"
    then obtain r8 where r8: "r8 \<in> set (rows df8)" "fst r8 = fst r"
      "is_positive (cell_at ''impression'' (snd r8))"
      by (auto simp: out)
    have "(fst r8, cell_at ''impression'' (snd r8)) \<in>
               set (map (\<lambda>r. (fst r, cell_at ''impression'' (snd r))) (rows df8))"
      using r8(1) by (simp add: image_iff, blast)
    then obtain r' where r': "r' \<in> set (rows df)" "fst r' = fst r"
      "cell_at ''impression'' (snd r8) = fill0 (to_numeric1 (cell_at ''impression'' (snd r')))"
      unfolding view using r8(2) by auto
    from dist r r'(1,2) have "r' = r"
      by (metis eq_key_imp_eq_value prod.collapse)
    with r'(3) zero r8(3) show False
      by simp
  qed
  from pos gone show ?thesis
    by blast
qed

theorem clean_marketing_data_impressions_witness:
  "clean_marketing_data ads_example ''Facebook'' = Inr ads_example_clean \<and>
   list_all (\<lambda>r. is_positive (cell_at ''impression'' (snd r))) (rows ads_example_clean) \<and>
   distinct (map fst (rows ads_example)) \<and>
   cell_at ''impression'' (snd (rows ads_example ! 1)) = Num 0 \<and>
   fst (rows ads_example ! 1) \<notin> fst ` set (rows ads_example_clean)"
proof -
  note t = clean_marketing_data_impressions [OF ads_example_cleaned]
  have d: "distinct (map fst (rows ads_example))"
    by (simp add: ads_example_def)
  have m: "rows ads_example ! 1 \<in> set (rows ads_example)"
    by (simp add: ads_example_def)
  have z: "cell_at ''impression'' (snd (rows ads_example ! 1)) = Num 0"
    by (simp add: ads_example_def cell_at_def)
  from t d m z have "fst (rows ads_example ! 1) \<notin> fst ` set (rows ads_example_clean)"
    by blast
  with t d z show ?thesis
    by (simp add: ads_example_cleaned list_all_iff)
qed

section \<open>De-duplication of business records\<close>

lemma set_str_replace:
  "set (str_replace old new s) = (set s - {old}) \<union> (if old \<in> set s then set new else {})"
  by (induction s; auto simp: str_replace_def)

lemma str_replace_absent: "old \<notin> set s \<Longrightarrow> str_replace old new s = s"
  by (induction s; auto simp: str_replace_def)

lemma clean_column_name_date: "clean_column_name n = ''date'' \<longleftrightarrow> n = ''date''"
proof
  assume eq: "clean_column_name n = ''date''"
  define m where "m = str_replace (CHR ''#'') ''num'' n"
  have sm: "set (str_replace (CHR '' '') ''_'' m) = set ''date''"
    using eq by (simp add: clean_column_name_def m_def)
  have no_space: "CHR '' '' \<notin> set m"
  proof
    assume "CHR '' '' \<in> set m"
    then have "CHR ''_'' \<in> set (str_replace (CHR '' '') ''_'' m)"
      by (simp add: set_str_replace)
    then show False unfolding sm by simp
  qed
  then have m: "m = ''date''"
    using eq by (simp add: clean_column_name_def m_def [symmetric] str_replace_absent)
  have "CHR ''#'' \<notin> set n"
  proof
    assume "CHR ''#'' \<in> set n"
    then have "CHR ''u'' \<in> set m"
      by (simp add: m_def set_str_replace)
    then show False unfolding m by simp
  qed
  then show "n = ''date''"
    using m by (simp add: m_def str_replace_absent)
next
  assume "n = ''date''"
  then show "clean_column_name n = ''date''"
    by (simp add: clean_column_name_def str_replace_def)
qed

lemma cell_at_rename:
  assumes "\<And>k. f k = c \<longleftrightarrow> k = c"
  shows "cell_at c (map (\<lambda>(k, v). (f k, v)) cs) = cell_at c cs"
proof -
  have "map_of (map (\<lambda>(k, v). (f k, v)) cs) c = map_of cs c"
  proof (induction cs)
    case Nil
    then show ?case by simp
  next
    case (Cons a cs)
    show ?case
    proof (cases "fst a = c")
      case True
      then have "f (fst a) = c"
        using assms by blast
      with True show ?thesis
        by (simp add: split_def)
    next
      case False
      then have "f (fst a) \<noteq> c"
        using assms by blast
      with False Cons.IH show ?thesis
        by (simp add: split_def)
    qed
  qed
  then show ?thesis
    by (simp add: cell_at_def)
qed

lemma labels_rename_columns [simp]: "labels (rename_columns f df) = labels df"
  by (simp add: labels_def rename_columns_def o_def)

lemma length_rows_rename_columns [simp]:
  "length (rows (rename_columns f df)) = length (rows df)"
  by (simp add: rename_columns_def)

lemma col_rename_columns_date:
  "col (rename_columns clean_column_name df) ''date'' = col df ''date''"
  by (simp add: col_def rename_columns_def o_def cell_at_rename clean_column_name_date)

lemma has_key_rename_columns_date:
  "has_key ''date'' df \<Longrightarrow> has_key ''date'' (rename_columns clean_column_name df)"
proof -
  have "''date'' \<in> fst ` set (map (\<lambda>(k, v). (clean_column_name k, v)) cs)"
    if "''date'' \<in> fst ` set cs" for cs :: cells
  proof -
    from that obtain v where "(''date'', v) \<in> set cs"
      by auto
    then have "(clean_column_name ''date'', v) \<in> set (map (\<lambda>(k, v). (clean_column_name k, v)) cs)"
      by force
    then show ?thesis
      by (simp only: clean_column_name_date [THEN iffD2, OF refl], force)
  qed
  then show "has_key ''date'' df \<Longrightarrow> has_key ''date'' (rename_columns clean_column_name df)"
    by (simp add: has_key_def rename_columns_def list_all_iff)
qed

lemma plain_ratio_length:
  assumes "plain_ratio df a b k = Inr vs"
  shows "length vs = length (rows df)"
proof -
  from assms obtain sa sb q where
    sa: "series df a = Inr sa" and sb: "series df b = Inr sb" and q: "sdiv sa sb = Inr q" and
    vs: "vs = map (round2 \<circ> scale k) q"
    by (auto simp: plain_ratio_def and_then_eq_Inr)
  have "length q = length (rows df)"
    using traverse_length [OF q [unfolded sdiv_def]] series_Inr [OF sa] series_Inr [OF sb]
    by simp
  then show ?thesis
    by (simp add: vs)
qed

lemma clean_business_data_Inr:
  assumes "clean_business_data df = Inr out"
  obtains df6 where
    "out = df6\<lparr>rows := keep_first ''date'' [] (rows df6)\<rparr>"
    "labels df6 = labels df"
    "col df6 ''date'' = map fill0 (col df ''date'')"
proof -
  from assms obtain d d' df3 pm aov where
    d: "series df ''date'' = Inr d" and d': "to_datetime d = Inr d'" and
    df3: "coerce_columns [''total_revenue'', ''gross_profit'', ''COGS'']
            (rename_columns clean_column_name (assign ''date'' d' df)) = Inr df3" and
    pm: "plain_ratio (fillna0 df3) ''gross_profit'' ''total_revenue'' 100 = Inr pm" and
    aov: "plain_ratio (assign ''profit_margin'' pm (fillna0 df3)) ''total_revenue'' ''num_of_orders'' 1 = Inr aov" and
    out: "drop_duplicates ''date'' (assign ''avg_order_value'' aov (assign ''profit_margin'' pm (fillna0 df3))) = Inr out"
    unfolding clean_business_data_def Let_def and_then_eq_Inr by blast
  define df1 where "df1 = assign ''date'' d' df"
  define df2 where "df2 = rename_columns clean_column_name df1"
  define df4 where "df4 = fillna0 df3"
  define df5 where "df5 = assign ''profit_margin'' pm df4"
  define df6 where "df6 = assign ''avg_order_value'' aov df5"
  note defs = df1_def df2_def df4_def df5_def df6_def
  have dd: "d = col df ''date''" using series_Inr [OF d] by simp
  have d'd: "d' = d" using traverse_Inr_map [OF d' [unfolded to_datetime_def], of "\<lambda>c. c"]
    by (auto dest: to_datetime1_Inr)
  have l1: "length (rows df1) = length (rows df)" "labels df1 = labels df"
    "col df1 ''date'' = d" "has_key ''date'' df1"
    by (simp add: df1_def d'd dd)+
  have l2: "length (rows df2) = length (rows df)" "labels df2 = labels df"
    "col df2 ''date'' = d" "has_key ''date'' df2"
    by (simp add: df2_def l1 col_rename_columns_date has_key_rename_columns_date)+
  note c3 = coerce_columns_Inr [OF df3 [folded df1_def, folded df2_def]]
  have l3: "labels df3 = labels df" "col df3 ''date'' = d" "has_key ''date'' df3"
    using c3 l2 by auto+
  have len3: "length (rows df3) = length (rows df)"
    using l3(1) by (simp add: labels_def) (metis length_map)
  have l4: "length (rows df4) = length (rows df)" "labels df4 = labels df"
    "col df4 ''date'' = map fill0 d"
    by (simp add: df4_def l3 len3 col_fillna0)+
  have n5: "length pm = length (rows df4)"
    using plain_ratio_length [OF pm] by (simp add: df4_def)
  have l5: "length (rows df5) = length (rows df)" "labels df5 = labels df"
    "col df5 ''date'' = map fill0 d"
    by (simp add: df5_def l4 n5)+
  have n6: "length aov = length (rows df5)"
    using plain_ratio_length [OF aov] by (simp add: defs)
  have l6: "labels df6 = labels df" "col df6 ''date'' = map fill0 d"
    by (simp add: df6_def l5 n6)+
  have "out = df6\<lparr>rows := keep_first ''date'' [] (rows df6)\<rparr>"
    using out by (auto simp: drop_duplicates_def and_then_eq_Inr defs)
  then show ?thesis
    using that l6 by (simp add: dd)
qed

lemma keep_first_keys:
  "(\<lambda>r. cell_at c (snd r)) ` set (keep_first c seen rs) =
   (\<lambda>r. cell_at c (snd r)) ` set rs - set seen"
  by (induction rs arbitrary: seen; auto)

lemma keep_first_subset: "set (keep_first c seen rs) \<subseteq> set rs"
  by (induction rs arbitrary: seen; auto)

lemma keep_first_distinct: "distinct (map (\<lambda>r. cell_at c (snd r)) (keep_first c seen rs))"
proof (induction rs arbitrary: seen)
  case Nil
  then show ?case by simp
next
  case (Cons r rs)
  have "cell_at c (snd r) \<notin> (\<lambda>r. cell_at c (snd r)) ` set (keep_first c (cell_at c (snd r) # seen) rs)"
    unfolding keep_first_keys by simp
  with Cons.IH show ?case
    by simp
qed

lemma keep_first_label:
  assumes "distinct (map fst rs)" and "i < length rs"
  shows "fst (rs ! i) \<in> fst ` set (keep_first c seen rs) \<longleftrightarrow>
         cell_at c (snd (rs ! i)) \<notin> set seen \<and>
         (\<forall>j<i. cell_at c (snd (rs ! j)) \<noteq> cell_at c (snd (rs ! i)))"
  using assms
proof (induction rs arbitrary: seen i)
  case Nil
  then show ?case by simp
next
  case (Cons r rs)
  have fresh: "fst r \<notin> fst ` set (keep_first c s rs)" for s
    using Cons.prems(1) keep_first_subset [of c s rs] by auto
  show ?case
  proof (cases i)
    case 0
    then show ?thesis
      using fresh by auto
  next
    case (Suc i')
    with Cons.prems have i': "i' < length rs" and dist: "distinct (map fst rs)"
      by simp_all
    have ne: "fst (rs ! i') \<noteq> fst r"
    proof
      assume "fst (rs ! i') = fst r"
      then have "fst r \<in> fst ` set rs"
        using nth_mem [OF i'] by (metis imageI)
      then show False
        using Cons.prems(1) by simp
    qed
    show ?thesis
    proof (cases "cell_at c (snd r) \<in> set seen")
      case True
      then show ?thesis
        using Cons.IH [OF dist i', of seen] Suc
        by (auto simp: less_Suc_eq_0_disj)
    next
      case False
      then show ?thesis
        using Cons.IH [OF dist i', of "cell_at c (snd r) # seen"] Suc ne
        by (auto simp: less_Suc_eq_0_disj)
    qed
  qed
qed

lemma business_dup_cleaned: "clean_business_data business_dup = Inr business_dup_clean"
  by (simp add: business_dup_def business_dup_clean_def eval_simps cong: and_then_weak_cong)

lemma count_list_distinct: "distinct xs \<Longrightarrow> x \<in> set xs \<Longrightarrow> count_list xs x = 1"
  by (induction xs; auto)

text \<open>
  Claim C3. The table that \<open>clean_business_data\<close> returns has no date twice, and
  every date of the input (as it stands after cleaning, a missing one filled with 0)
  is the date of exactly one record of the result.
\<close>

theorem clean_business_data_one_record_per_date:
  assumes "clean_business_data df = Inr out"
  shows "distinct (col out ''date'') \<and>
         (\<forall>r \<in> set (rows df). count_list (col out ''date'') (fill0 (cell_at ''date'' (snd r))) = 1)"
proof -
  from assms obtain df6 where
    out: "out = df6\<lparr>rows := keep_first ''date'' [] (rows df6)\<rparr>" and
    dates: "col df6 ''date'' = map fill0 (col df ''date'')"
    by (rule clean_business_data_Inr)
  have dist: "distinct (col out ''date'')"
    unfolding out col_def by (simp add: keep_first_distinct)
  have "set (col out ''date'') = set (col df6 ''date'')"
    unfolding out col_def using keep_first_keys [of "''date''" "[]" "rows df6"]
    by simp
  then have "set (col out ''date'') = fill0 ` set (col df ''date'')"
    by (simp add: dates)
  then have "fill0 (cell_at ''date'' (snd r)) \<in> set (col out ''date'')" if "r \<in> set (rows df)" for r
    using that by (simp add: col_def)
  with dist show ?thesis
    by (simp add: count_list_distinct)
qed

theorem clean_business_data_one_record_per_date_witness:
  "clean_business_data business_dup = Inr business_dup_clean \<and>
   col business_dup ''date'' = [Date 1, Date 1] \<and>
   distinct (col business_dup_clean ''date'') \<and>
   count_list (col business_dup_clean ''date'') (Date 1) = 1"
proof -
  note t = clean_business_data_one_record_per_date [OF business_dup_cleaned]
  have "rows business_dup ! 1 \<in> set (rows business_dup)"
    by (simp add: business_dup_def)
  with t have "count_list (col business_dup_clean ''date'')
                 (fill0 (cell_at ''date'' (snd (rows business_dup ! 1)))) = 1"
    by blast
  then have "count_list (col business_dup_clean ''date'') (Date 1) = 1"
    by (simp add: business_dup_def cell_at_def)
  moreover have "col business_dup ''date'' = [Date 1, Date 1]"
    by (simp add: business_dup_def col_def cell_at_def)
  ultimately show ?thesis
    using t business_dup_cleaned by simp
qed

text \<open>
  Claim C10. Among the business records that share a date, \<open>clean_business_data\<close>
  keeps the first in input order and drops the later ones: the record at position
  \<open>i\<close> of the input is in the result exactly when no record before it has its date.
  Records are told apart by their index labels.
\<close>

theorem clean_business_data_keeps_first:
  assumes "clean_business_data df = Inr out"
    and "distinct (labels df)"
    and "i < length (rows df)"
  shows "labels df ! i \<in> set (labels out) \<longleftrightarrow>
         (\<forall>j<i. fill0 (col df ''date'' ! j) \<noteq> fill0 (col df ''date'' ! i))"
proof -
  from assms(1) obtain df6 where
    out: "out = df6\<lparr>rows := keep_first ''date'' [] (rows df6)\<rparr>" and
    lab: "labels df6 = labels df" and
    dates: "col df6 ''date'' = map fill0 (col df ''date'')"
    by (rule clean_business_data_Inr)
  have len: "length (rows df6) = length (rows df)"
    using lab by (simp add: labels_def) (metis length_map)
  have dist: "distinct (map fst (rows df6))"
    using assms(2) lab by (simp add: labels_def)
  have i6: "i < length (rows df6)"
    using assms(3) len by simp
  have key: "cell_at ''date'' (snd (rows df6 ! j)) = fill0 (col df ''date'' ! j)"
    if "j < length (rows df)" for j
  proof -
    have "cell_at ''date'' (snd (rows df6 ! j)) = col df6 ''date'' ! j"
      using that len by (simp add: col_def)
    then show ?thesis
      using that by (simp add: dates)
  qed
  have "fst (rows df6 ! i) = labels df ! i"
    using i6 lab [symmetric] by (simp add: labels_def)
  moreover have "set (labels out) = fst ` set (keep_first ''date'' [] (rows df6))"
    by (simp add: out labels_def)
  ultimately show ?thesis
    using keep_first_label [OF dist i6, of "''date''" "[]"] key assms(3)
    by simp
qed

theorem clean_business_data_keeps_first_witness:
  "clean_business_data business_dup = Inr business_dup_clean \<and>
   distinct (labels business_dup) \<and>
   col business_dup ''date'' = [Date 1, Date 1] \<and>
   labels business_dup ! 0 \<in> set (labels business_dup_clean) \<and>
   labels business_dup ! 1 \<notin> set (labels business_dup_clean)"
proof -
  have d: "distinct (labels business_dup)"
    by (simp add: business_dup_def labels_def)
  have c: "col business_dup ''date'' = [Date 1, Date 1]"
    by (simp add: business_dup_def col_def cell_at_def)
  have n: "length (rows business_dup) = 2"
    by (simp add: business_dup_def)
  have "labels business_dup ! 0 \<in> set (labels business_dup_clean)"
    using clean_business_data_keeps_first [OF business_dup_cleaned d, of 0] n
    by simp
  moreover have "labels business_dup ! 1 \<notin> set (labels business_dup_clean)"
    using clean_business_data_keeps_first [OF business_dup_cleaned d, of 1] n c
    by simp
  ultimately show ?thesis
    using business_dup_cleaned d c by simp
qed

section \<open>Unparseable dates and missing columns\<close>








text \<open>
  Claim C8 fails on the code. The loop that coerces the numeric columns skips a
  column that the table lacks, but the metrics read \<^verbatim>\<open>df['impression']\<close> and the
  other columns without that check: for a table with no impression column the call
  ends in a \<^verbatim>\<open>KeyError\<close>.
\<close>

theorem missing_impression_column_raises:
  "clean_marketing_data ads_no_impression ''Facebook'' = Inl (KeyError ''impression'')"
  by (simp add: ads_no_impression_def eval_simps cong: and_then_weak_cong)

text \<open>
  Claim C1 fails on the code for the two ratios of \<open>clean_business_data\<close>, which
  divide without a guard: for a record with revenue 0 and 0 orders the profit margin
  is \<open>+inf\<close> and the average order value is \<open>NaN\<close>.
\<close>

theorem business_ratios_unguarded:
  "clean_business_data business_zero = Inr business_zero_clean \<and>
   col business_zero ''total revenue'' = [Num 0] \<and>
   col business_zero ''# of orders'' = [Num 0] \<and>
   col business_zero_clean ''profit_margin'' = [PosInf] \<and>
   col business_zero_clean ''avg_order_value'' = [NaN]"
  by (simp add: business_zero_def business_zero_clean_def col_def eval_simps cong: and_then_weak_cong)

section \<open>The concrete scenario\<close>

lemmas unify_simps =
  combine_marketing_data_def concat_frames_def union_columns_def reindex_def sort_values_def
  comparable_def create_unified_dataset_def groupby_sum_def group_keys_def aggregate_def
  group_rows_def group_sum_def merge_outer_def join_key_def left_part_def right_part_def
  suffix_x_def suffix_y_def

lemma ad_record_cleaned: "clean_marketing_data (ad_record t) ''Facebook'' = Inr (ad_record_clean t)"
  by (simp add: ad_record_def ad_record_clean_def eval_simps cong: and_then_weak_cong)

lemma no_ads_cleaned:
  "clean_marketing_data no_ads p = Inr (no_ads_clean\<lparr>columns := columns no_ads_clean\<rparr>)"
  by (simp add: no_ads_def no_ads_clean_def eval_simps cong: and_then_weak_cong)

lemma business_record_cleaned: "clean_business_data (business_record t) = Inr (business_record_clean t)"
  by (simp add: business_record_def business_record_clean_def eval_simps cong: and_then_weak_cong)

lemma sort_singleton: "sort p = [x] \<Longrightarrow> p = [x]"
proof -
  assume a: "sort p = [x]"
  then have "mset p = {#x#}"
    by (metis mset_sort mset.simps(1) mset.simps(2))
  then show "p = [x]"
    by simp
qed

lemma argsort_single:
  assumes "argsort_spec argsort"
  shows "argsort [Date t] = [0]"
proof -
  have "comparable [Date t]"
    by (simp add: comparable_def)
  with assms have "sorting_permutation [Date t] (argsort [Date t])"
    by (simp add: argsort_spec_def)
  then have "sort (argsort [Date t]) = [0]"
    by (simp add: sorting_permutation_def)
  then show ?thesis
    by (rule sort_singleton)
qed

lemma ad_record_combined:
  assumes "argsort_spec argsort"
  shows "combine_marketing_data argsort (ad_record t) no_ads no_ads = Inr (ad_record_clean t)"
  by (simp add: combine_marketing_data_def ad_record_cleaned no_ads_cleaned
      argsort_single [OF assms] ad_record_clean_def no_ads_clean_def concat_frames_def
      union_columns_def reindex_def sort_values_def comparable_def series_def cell_at_def
      cong: and_then_weak_cong)

lemma record_unified:
  "create_unified_dataset (business_record_clean t) (ad_record_clean t) = Inr (unified_record t)"
  by (simp add: business_record_clean_def ad_record_clean_def unified_record_def
      unify_simps eval_simps cong: and_then_weak_cong)

lemma sort_upt_sort_key: "sort (sort_key f xs) = sort xs"
  by (rule properties_for_sort; simp)

lemma argsort_spec_stable: "argsort_spec stable_argsort"
  unfolding argsort_spec_def sorting_permutation_def stable_argsort_def
  by (simp add: sort_upt_sort_key sorted_sort_id)

text \<open>
  Claim C5. The business record of 2024-01-01 (revenue 1000, gross profit 400, 10
  orders) and the Facebook ad record of that day (2000 impressions, 40 clicks, spend
  100, attributed revenue 150), with no record from the two other platforms: the
  cleaned ad record has ctr 2.0, cpc 2.5, roas 1.5 and cpm 50.0, and the unified
  table has one record, for that day, with marketing efficiency 10.0. \<open>t\<close> is the
  instant that the date parses to.
\<close>

theorem pipeline_scenario:
  assumes "argsort_spec argsort"
  shows "\<exists>ads u.
    clean_marketing_data (ad_record t) ''Facebook'' = Inr ads \<and>
    col ads ''ctr'' = [Num 2] \<and> col ads ''cpc'' = [Num (5 / 2)] \<and>
    col ads ''roas'' = [Num (3 / 2)] \<and> col ads ''cpm'' = [Num 50] \<and>
    and_then (clean_business_data (business_record t)) (\<lambda>business.
      and_then (combine_marketing_data argsort (ad_record t) no_ads no_ads)
        (create_unified_dataset business)) = Inr u \<and>
    col u ''date'' = [Date t] \<and> col u ''marketing_efficiency'' = [Num 10]"
proof (intro exI conjI)
  show "clean_marketing_data (ad_record t) ''Facebook'' = Inr (ad_record_clean t)"
    by (rule ad_record_cleaned)
  show "col (ad_record_clean t) ''ctr'' = [Num 2]"
    and "col (ad_record_clean t) ''cpc'' = [Num (5 / 2)]"
    and "col (ad_record_clean t) ''roas'' = [Num (3 / 2)]"
    and "col (ad_record_clean t) ''cpm'' = [Num 50]"
    by (simp add: ad_record_clean_def col_def cell_at_def)+
  show "and_then (clean_business_data (business_record t)) (\<lambda>business.
      and_then (combine_marketing_data argsort (ad_record t) no_ads no_ads)
        (create_unified_dataset business)) = Inr (unified_record t)"
    by (simp add: business_record_cleaned ad_record_combined [OF assms] record_unified)
  show "col (unified_record t) ''date'' = [Date t]"
    and "col (unified_record t) ''marketing_efficiency'' = [Num 10]"
    by (simp add: unified_record_def col_def cell_at_def)+
qed

theorem pipeline_scenario_witness:
  "argsort_spec stable_argsort \<and>
   (\<exists>ads u.
    clean_marketing_data (ad_record 19723) ''Facebook'' = Inr ads \<and>
    col ads ''ctr'' = [Num 2] \<and> col ads ''cpc'' = [Num (5 / 2)] \<and>
    col ads ''roas'' = [Num (3 / 2)] \<and> col ads ''cpm'' = [Num 50] \<and>
    and_then (clean_business_data (business_record 19723)) (\<lambda>business.
      and_then (combine_marketing_data stable_argsort (ad_record 19723) no_ads no_ads)
        (create_unified_dataset business)) = Inr u \<and>
    col u ''date'' = [Date 19723] \<and> col u ''marketing_efficiency'' = [Num 10])"
  using pipeline_scenario [OF argsort_spec_stable, of 19723] argsort_spec_stable
  by blast

section \<open>Combining the platforms\<close>

lemma sort_upt_mset: "sort p = [0..<n] \<Longrightarrow> mset p = mset [0..<n]"
  by (metis mset_sort)

lemma mset_map_nth:
  assumes "mset p = mset [0..<length xs]"
  shows "mset (map (\<lambda>i. xs ! i) p) = mset xs"
proof -
  have "mset (map (\<lambda>i. xs ! i) p) = image_mset (\<lambda>i. xs ! i) (mset p)"
    by simp
  also have "\<dots> = mset (map (\<lambda>i. xs ! i) [0..<length xs])"
    unfolding assms by simp
  also have "\<dots> = mset xs"
    by (simp add: map_nth)
  finally show ?thesis .
qed

lemma sort_values_Inr:
  assumes "argsort_spec argsort" and "sort_values argsort c df = Inr out"
  shows "columns out = columns df" and "mset (rows out) = mset (rows df)"
    and "sorted (map sort_rank (col out c))"
proof -
  from assms(2) obtain ks where ks: "series df c = Inr ks" and cmp: "comparable ks"
    and out: "out = df\<lparr>rows := map (\<lambda>i. rows df ! i) (argsort ks)\<rparr>"
    by (auto simp: sort_values_def and_then_eq_Inr split: if_splits)
  have kc: "ks = col df c"
    using series_Inr [OF ks] by simp
  from assms(1) cmp have sp: "sorting_permutation ks (argsort ks)"
    by (simp add: argsort_spec_def)
  then have perm: "mset (argsort ks) = mset [0..<length (rows df)]"
    using sort_upt_mset [of "argsort ks" "length ks"]
    by (simp add: sorting_permutation_def kc)
  show "columns out = columns df"
    by (simp add: out)
  show "mset (rows out) = mset (rows df)"
    using mset_map_nth [OF perm] by (simp add: out)
  have "i < length (rows df)" if "i \<in> set (argsort ks)" for i
  proof -
    from that have "i \<in># mset [0..<length (rows df)]"
      unfolding perm [symmetric] by simp
    then show ?thesis
      by simp
  qed
  then have "map sort_rank (col out c) = map (\<lambda>i. sort_rank (ks ! i)) (argsort ks)"
    by (simp add: out col_def kc)
  with sp show "sorted (map sort_rank (col out c))"
    by (simp add: sorting_permutation_def)
qed

lemma rows_concat_frames:
  "map snd (rows (concat_frames dfs)) =
     map (\<lambda>r. reindex (columns (concat_frames dfs)) (snd r)) (concat (map rows dfs))"
  by (simp add: concat_frames_def)

lemma labels_concat_frames: "labels (concat_frames dfs) = [0..<length (concat (map rows dfs))]"
  by (simp add: concat_frames_def labels_def)

lemma facebook_report_cleaned:
  "clean_marketing_data facebook_report ''Facebook'' = Inr facebook_report_clean"
  by (simp add: facebook_report_def facebook_report_clean_def eval_simps cong: and_then_weak_cong)

lemma google_report_cleaned:
  "clean_marketing_data google_report ''Google'' = Inr google_report_clean"
  by (simp add: google_report_def google_report_clean_def eval_simps cong: and_then_weak_cong)

lemma tiktok_report_cleaned:
  "clean_marketing_data tiktok_report ''TikTok'' = Inr tiktok_report_clean"
  by (simp add: tiktok_report_def tiktok_report_clean_def eval_simps cong: and_then_weak_cong)

lemma reports_stable_order:
  "stable_argsort [Date 3, Date 1, Date 2, Date 1, Date 4] = [1, 3, 2, 0, 4]"
  by (simp add: stable_argsort_def)

lemmas sort_simps =
  nargsort_def aquicksort_def stack_pop.simps quicksort_loop.simps SMALL_QUICKSORT_def
  quicksort_partition_def partition_loop.simps scan_up.simps scan_down.simps median_of_three_def
  INTP_SWAP_def less_tag_def insertion_sort_def insertion_step_def insertion_shift.simps
  npy_get_msb.simps Let_def

lemma reports_library_order:
  "nargsort [Date 3, Date 1, Date 2, Date 1, Date 4] = [1, 3, 2, 0, 4]"
  by (simp add: sort_simps)

lemma reports_combined_by:
  assumes "argsort [Date 3, Date 1, Date 2, Date 1, Date 4] = [1, 3, 2, 0, 4]"
  shows "combine_marketing_data argsort facebook_report google_report tiktok_report =
    Inr reports_combined"
  by (simp add: combine_marketing_data_def facebook_report_cleaned google_report_cleaned
      tiktok_report_cleaned assms facebook_report_clean_def google_report_clean_def
      tiktok_report_clean_def reports_combined_def concat_frames_def union_columns_def reindex_def
      sort_values_def comparable_def series_def cell_at_def cong: and_then_weak_cong)

lemma one_day_report_cleaned:
  "clean_marketing_data one_day_report platform_name = Inr (one_day_report_clean platform_name)"
  by (simp add: one_day_report_def one_day_report_clean_def campaign_record_def
      campaign_record_clean_def eval_simps cong: and_then_weak_cong)

lemma one_day_library_order:
  "nargsort [Date 1, Date 1, Date 1, Date 1, Date 1, Date 1, Date 1, Date 1, Date 1,
             Date 1, Date 1, Date 1, Date 1, Date 1, Date 1, Date 1, Date 1, Date 1] =
     one_day_order"
  by (simp add: sort_simps one_day_order_def)

lemma reindex_campaign_record_clean:
  "reindex [''date'', ''impression'', ''clicks'', ''spend'', ''attributed revenue'',
            ''platform'', ''ctr'', ''cpc'', ''roas'', ''cpm''] (campaign_record_clean platform_name) =
     campaign_record_clean platform_name"
  by (simp add: reindex_def campaign_record_clean_def cell_at_def)

lemma cell_at_date_campaign_record_clean:
  "cell_at ''date'' (campaign_record_clean platform_name) = Date 1"
  by (simp add: campaign_record_clean_def cell_at_def)

lemma one_day_combined_by_library:
  "combine_marketing_data nargsort one_day_report one_day_report one_day_report =
     Inr one_day_combined"
  by (simp add: combine_marketing_data_def one_day_report_cleaned one_day_library_order
      one_day_report_clean_def one_day_combined_def one_day_order_def platform_of_def
      concat_frames_def union_columns_def reindex_campaign_record_clean
      cell_at_date_campaign_record_clean sort_values_def comparable_def series_def
      cong: and_then_weak_cong)

text \<open>
  Claim C6, as amended. The table that \<open>combine_marketing_data\<close> returns holds every
  row of the three cleaned platform tables exactly once, aligned to the union of
  their columns and labelled \<open>0, 1, ...\<close> in the order Facebook, Google, TikTok
  before the sort; none is dropped and none is merged with another. Its rows are in
  ascending order of date. The order of rows that share a date is whatever the
  library's sort makes it: the code calls \<^verbatim>\<open>sort_values\<close> with its default kind.
  The theorem holds for every sort that returns a sorting permutation.
\<close>

theorem combine_marketing_data_all_rows_sorted:
  assumes "argsort_spec argsort"
    and "combine_marketing_data argsort facebook_df google_df tiktok_df = Inr out"
  shows "\<exists>fb g tt.
    clean_marketing_data facebook_df ''Facebook'' = Inr fb \<and>
    clean_marketing_data google_df ''Google'' = Inr g \<and>
    clean_marketing_data tiktok_df ''TikTok'' = Inr tt \<and>
    mset (map snd (rows out)) =
      mset (map (\<lambda>r. reindex (columns out) (snd r)) (rows fb @ rows g @ rows tt)) \<and>
    sort (labels out) = [0..<length (rows fb) + length (rows g) + length (rows tt)] \<and>
    sorted (map sort_rank (col out ''date''))"
proof -
  from assms(2) obtain fb g tt where
    fb: "clean_marketing_data facebook_df ''Facebook'' = Inr fb" and
    g: "clean_marketing_data google_df ''Google'' = Inr g" and
    tt: "clean_marketing_data tiktok_df ''TikTok'' = Inr tt" and
    sv: "sort_values argsort ''date'' (concat_frames [fb, g, tt]) = Inr out"
    unfolding combine_marketing_data_def and_then_eq_Inr by blast
  define pre where "pre = concat_frames [fb, g, tt]"
  note s = sort_values_Inr [OF assms(1) sv [folded pre_def]]
  have "mset (map snd (rows out)) = mset (map snd (rows pre))"
    using s(2) by (metis mset_map)
  then have rows_eq: "mset (map snd (rows out)) =
      mset (map (\<lambda>r. reindex (columns out) (snd r)) (rows fb @ rows g @ rows tt))"
    by (simp add: pre_def rows_concat_frames s(1) [unfolded pre_def])
  have "mset (labels out) = mset (labels pre)"
    unfolding labels_def using s(2) by (metis mset_map)
  then have "mset (labels out) = mset [0..<length (rows fb) + length (rows g) + length (rows tt)]"
    by (simp add: pre_def labels_concat_frames add.assoc)
  then have "sort (labels out) = [0..<length (rows fb) + length (rows g) + length (rows tt)]"
    by (intro properties_for_sort; simp)
  with fb g tt rows_eq s(3) show ?thesis
    by blast
qed

theorem combine_marketing_data_all_rows_sorted_witness:
  "argsort_spec stable_argsort \<and>
   combine_marketing_data stable_argsort facebook_report google_report tiktok_report =
     Inr reports_combined \<and>
   combine_marketing_data nargsort facebook_report google_report tiktok_report =
     Inr reports_combined \<and>
   labels reports_combined = [1, 3, 2, 0, 4] \<and>
   col reports_combined ''date'' = [Date 1, Date 1, Date 2, Date 3, Date 4] \<and>
   col reports_combined ''platform'' =
     [Text ''Facebook'', Text ''TikTok'', Text ''Google'', Text ''Facebook'', Text ''TikTok''] \<and>
   sorted (map sort_rank (col reports_combined ''date''))"
proof -
  have c: "combine_marketing_data stable_argsort facebook_report google_report tiktok_report =
      Inr reports_combined"
    using reports_stable_order by (rule reports_combined_by)
  have n: "combine_marketing_data nargsort facebook_report google_report tiktok_report =
      Inr reports_combined"
    using reports_library_order by (rule reports_combined_by)
  have l: "labels reports_combined = [1, 3, 2, 0, 4]"
    by (simp add: reports_combined_def labels_def)
  have d: "col reports_combined ''date'' = [Date 1, Date 1, Date 2, Date 3, Date 4]"
    and p: "col reports_combined ''platform'' =
      [Text ''Facebook'', Text ''TikTok'', Text ''Google'', Text ''Facebook'', Text ''TikTok'']"
    by (simp add: reports_combined_def facebook_report_clean_def google_report_clean_def
      tiktok_report_clean_def col_def cell_at_def)+
  have "sorted (map sort_rank (col reports_combined ''date''))"
    using combine_marketing_data_all_rows_sorted [OF argsort_spec_stable c]
    by blast
  with argsort_spec_stable c n l d p show ?thesis
    by (simp only: simp_thms)
qed

text \<open>
  Claim C6 as stated fails in its last part. Six campaign records of one day on each
  of the three platforms are labelled \<open>0 .. 17\<close> in the order Facebook, Google,
  TikTok. The library's sort partitions the eighteen equal keys once, which swaps
  them pairwise around the middle, and the combined table has its rows in the order
  \<open>0, 15, 14, ..., 1, 16, 17\<close>: TikTok records before Google records before most of
  the Facebook records, all of one date.
\<close>

theorem combine_marketing_data_stable_counterexample:
  "combine_marketing_data nargsort one_day_report one_day_report one_day_report =
     Inr one_day_combined \<and>
   set (col one_day_combined ''date'') = {Date 1} \<and>
   labels one_day_combined = [0, 15, 14, 13, 12, 11, 10, 9, 8, 7, 6, 5, 4, 3, 2, 1, 16, 17] \<and>
   \<not> sorted (labels one_day_combined) \<and>
   map (\<lambda>c. c = Text ''TikTok'') (col one_day_combined ''platform'') =
     [False, True, True, True, True, False, False, False, False, False, False,
      False, False, False, False, False, True, True]"
proof -
  have l: "labels one_day_combined = [0, 15, 14, 13, 12, 11, 10, 9, 8, 7, 6, 5, 4, 3, 2, 1, 16, 17]"
    by (simp add: one_day_combined_def one_day_order_def labels_def)
  have d: "set (col one_day_combined ''date'') = {Date 1}"
    by (simp add: one_day_combined_def one_day_order_def col_def
      cell_at_date_campaign_record_clean)
  have p: "map (\<lambda>c. c = Text ''TikTok'') (col one_day_combined ''platform'') =
     [False, True, True, True, True, False, False, False, False, False, False,
      False, False, False, False, False, True, True]"
    by (simp add: one_day_combined_def one_day_order_def col_def platform_of_def
      campaign_record_clean_def cell_at_def)
  have "\<not> sorted (labels one_day_combined)"
    unfolding l by simp
  with one_day_combined_by_library l d p show ?thesis
    by (simp only: simp_thms)
qed

section \<open>The outer join\<close>

lemma cell_at_map_pairs:
  "cell_at c (map (\<lambda>c. (c, f c)) A @ rest) = (if c \<in> set A then f c else cell_at c rest)"
  by (simp add: cell_at_def map_add_def restrict_map_def map_of_map_restrict split: option.splits)

lemma cell_at_Nil [simp]: "cell_at c [] = NaN"
  by (simp add: cell_at_def)

lemma left_part_plain:
  assumes "set (columns l) \<inter> set (columns r) \<subseteq> {key}"
  shows "left_part key l r f = map (\<lambda>c. (c, f c)) (columns l)"
  unfolding left_part_def using assms by (auto simp: suffix_x_def)

lemma right_part_plain:
  assumes "set (columns l) \<inter> set (columns r) \<subseteq> {key}"
  shows "right_part key l r f = map (\<lambda>c. (c, f c)) (filter (\<lambda>c. c \<noteq> key) (columns r))"
  unfolding right_part_def using assms by (auto simp: suffix_y_def)

lemma cell_at_parts:
  assumes "set (columns l) \<inter> set (columns r) \<subseteq> {key}"
  shows "cell_at c (left_part key l r f @ right_part key l r g) =
     (if c \<in> set (columns l) then f c
      else if c \<in> set (columns r) \<and> c \<noteq> key then g c else NaN)"
  unfolding left_part_plain [OF assms] right_part_plain [OF assms] cell_at_map_pairs
  using cell_at_map_pairs [of c g "filter (\<lambda>c. c \<noteq> key) (columns r)" "[]"]
  by simp

lemma keys_parts:
  assumes "set (columns l) \<inter> set (columns r) \<subseteq> {key}"
  shows "fst ` set (left_part key l r f @ right_part key l r g) =
         set (columns l) \<union> (set (columns r) - {key})"
  unfolding left_part_plain [OF assms] right_part_plain [OF assms]
  by (auto simp: image_Un image_image)

lemma group_rows_empty: "group_rows key k rs = [] \<longleftrightarrow> k \<notin> (\<lambda>r. cell_at key (snd r)) ` set rs"
  by (auto simp: group_rows_def filter_empty_conv)

lemma group_rows_key: "x \<in> set (group_rows key k rs) \<Longrightarrow> cell_at key (snd x) = k"
  by (simp add: group_rows_def)

lemma join_key_cells:
  assumes disj: "set (columns l) \<inter> set (columns r) \<subseteq> {key}"
    and key: "key \<in> set (columns l)"
    and cs: "cs \<in> set (join_key key l r k)"
  shows "cell_at key cs = k"
    and "fst ` set cs = set (columns l) \<union> (set (columns r) - {key})"
    and "k \<notin> set (col r key) \<Longrightarrow> c \<in> set (columns r) \<Longrightarrow> c \<noteq> key \<Longrightarrow> cell_at c cs = NaN"
    and "k \<notin> set (col l key) \<Longrightarrow> c \<in> set (columns l) \<Longrightarrow> c \<noteq> key \<Longrightarrow> cell_at c cs = NaN"
proof -
  define ls where "ls = group_rows key k (rows l)"
  define rs where "rs = group_rows key k (rows r)"
  have rs_empty: "rs = [] \<longleftrightarrow> k \<notin> set (col r key)"
    by (simp add: rs_def group_rows_empty col_def)
  have ls_empty: "ls = [] \<longleftrightarrow> k \<notin> set (col l key)"
    by (simp add: ls_def group_rows_empty col_def)
  have notin: "c \<in> set (columns r) \<Longrightarrow> c \<noteq> key \<Longrightarrow> c \<notin> set (columns l)" for c
    using disj by auto
  consider x where "rs = []" "x \<in> set ls"
      "cs = left_part key l r (\<lambda>c. cell_at c (snd x)) @ right_part key l r (\<lambda>c. NaN)"
    | y where "rs \<noteq> []" "ls = []" "y \<in> set rs"
      "cs = left_part key l r (\<lambda>c. if c = key then k else NaN) @
            right_part key l r (\<lambda>c. cell_at c (snd y))"
    | x y where "rs \<noteq> []" "ls \<noteq> []" "x \<in> set ls" "y \<in> set rs"
      "cs = left_part key l r (\<lambda>c. cell_at c (snd x)) @ right_part key l r (\<lambda>c. cell_at c (snd y))"
    using cs unfolding join_key_def Let_def ls_def [symmetric] rs_def [symmetric]
    by (auto split: if_splits)
  then have "cell_at key cs = k \<and>
      fst ` set cs = set (columns l) \<union> (set (columns r) - {key}) \<and>
      (k \<notin> set (col r key) \<longrightarrow> c \<in> set (columns r) \<longrightarrow> c \<noteq> key \<longrightarrow> cell_at c cs = NaN) \<and>
      (k \<notin> set (col l key) \<longrightarrow> c \<in> set (columns l) \<longrightarrow> c \<noteq> key \<longrightarrow> cell_at c cs = NaN)"
  proof cases
    case 1
    from 1(2) have "cell_at key (snd x) = k"
      unfolding ls_def by (rule group_rows_key)
    with 1(1,2) ls_empty key notin show ?thesis
      unfolding 1(3) cell_at_parts [OF disj] keys_parts [OF disj]
      by auto
  next
    case 2
    from 2(1,2,3) rs_empty ls_empty key notin show ?thesis
      unfolding 2(4) cell_at_parts [OF disj] keys_parts [OF disj]
      by auto
  next
    case 3
    from 3(3) have "cell_at key (snd x) = k"
      unfolding ls_def by (rule group_rows_key)
    with 3(1,2) rs_empty ls_empty key show ?thesis
      unfolding 3(5) cell_at_parts [OF disj] keys_parts [OF disj]
      by auto
  qed
  then show "cell_at key cs = k"
    and "fst ` set cs = set (columns l) \<union> (set (columns r) - {key})"
    and "k \<notin> set (col r key) \<Longrightarrow> c \<in> set (columns r) \<Longrightarrow> c \<noteq> key \<Longrightarrow> cell_at c cs = NaN"
    and "k \<notin> set (col l key) \<Longrightarrow> c \<in> set (columns l) \<Longrightarrow> c \<noteq> key \<Longrightarrow> cell_at c cs = NaN"
    by blast+
qed

lemma join_key_nonempty:
  assumes "k \<in> set (col l key) \<union> set (col r key)"
  shows "join_key key l r k \<noteq> []"
proof -
  have "group_rows key k (rows l) \<noteq> [] \<or> group_rows key k (rows r) \<noteq> []"
    using assms by (auto simp: group_rows_empty col_def)
  then show ?thesis
  proof (cases "group_rows key k (rows r) = []")
    case True
    with \<open>group_rows key k (rows l) \<noteq> [] \<or> group_rows key k (rows r) \<noteq> []\<close> show ?thesis
      unfolding join_key_def Let_def by simp
  next
    case r: False
    show ?thesis
    proof (cases "group_rows key k (rows l) = []")
      case True
      with r show ?thesis
        unfolding join_key_def Let_def by simp
    next
      case False
      then obtain x xs where "group_rows key k (rows l) = x # xs"
        by (auto simp: neq_Nil_conv)
      with r show ?thesis
        unfolding join_key_def Let_def by simp
    qed
  qed
qed

lemma merge_outer_Inr:
  assumes "merge_outer key l r = Inr u"
    and disj: "set (columns l) \<inter> set (columns r) \<subseteq> {key}"
  shows "columns u = columns l @ filter (\<lambda>c. c \<noteq> key) (columns r)"
    and "(\<lambda>x. cell_at key (snd x)) ` set (rows u) = set (col l key) \<union> set (col r key)"
    and "\<forall>x \<in> set (rows u). fst ` set (snd x) = set (columns u)"
    and "\<forall>x \<in> set (rows u). cell_at key (snd x) \<notin> set (col r key) \<longrightarrow>
           (\<forall>c \<in> set (columns r) - {key}. cell_at c (snd x) = NaN)"
    and "\<forall>x \<in> set (rows u). cell_at key (snd x) \<notin> set (col l key) \<longrightarrow>
           (\<forall>c \<in> set (columns l) - {key}. cell_at c (snd x) = NaN)"
proof -
  from assms(1) obtain lk rk where lk: "series l key = Inr lk" and rk: "series r key = Inr rk"
    and u: "u = \<lparr>columns = map (suffix_x key r) (columns l) @
                          map (suffix_y l) (filter (\<lambda>c. c \<noteq> key) (columns r)),
                 rows = enumerate 0
                   (concat (map (join_key key l r) (sort_key sort_rank (remdups (lk @ rk)))))\<rparr>"
    by (auto simp: merge_outer_def and_then_eq_Inr split: if_splits)
  have key: "key \<in> set (columns l)" and lkc: "lk = col l key" and rkc: "rk = col r key"
    using series_Inr [OF lk] series_Inr [OF rk] by simp_all
  have "map (suffix_x key r) (columns l) = columns l"
    using disj by (intro map_idI; auto simp: suffix_x_def)
  moreover have "map (suffix_y l) (filter (\<lambda>c. c \<noteq> key) (columns r)) =
      filter (\<lambda>c. c \<noteq> key) (columns r)"
    using disj by (intro map_idI; auto simp: suffix_y_def)
  ultimately have cols: "columns u = columns l @ filter (\<lambda>c. c \<noteq> key) (columns r)"
    by (simp add: u)
  show "columns u = columns l @ filter (\<lambda>c. c \<noteq> key) (columns r)"
    by (rule cols)
  have "snd ` set (enumerate 0 xs) = set xs" for xs :: "cells list"
    by (metis map_snd_enumerate set_map)
  then have rows: "snd ` set (rows u) = (\<Union>k \<in> set lk \<union> set rk. set (join_key key l r k))"
    by (simp add: u)
  have mem: "\<exists>k \<in> set lk \<union> set rk. snd x \<in> set (join_key key l r k)" if "x \<in> set (rows u)" for x
  proof -
    from that have "snd x \<in> snd ` set (rows u)"
      by (rule imageI)
    then show ?thesis
      unfolding rows by blast
  qed
  show "(\<lambda>x. cell_at key (snd x)) ` set (rows u) = set (col l key) \<union> set (col r key)"
  proof (intro set_eqI iffI)
    fix k
    assume "k \<in> (\<lambda>x. cell_at key (snd x)) ` set (rows u)"
    then obtain x where x: "x \<in> set (rows u)" "k = cell_at key (snd x)"
      by blast
    from mem [OF x(1)] obtain k' where "k' \<in> set lk \<union> set rk" "snd x \<in> set (join_key key l r k')"
      by blast
    then show "k \<in> set (col l key) \<union> set (col r key)"
      using join_key_cells(1) [OF disj key] x(2) lkc rkc by simp
  next
    fix k
    assume k: "k \<in> set (col l key) \<union> set (col r key)"
    then obtain cs where cs: "cs \<in> set (join_key key l r k)"
      using join_key_nonempty [OF k] by (fastforce simp: neq_Nil_conv)
    then have "cs \<in> snd ` set (rows u)"
      unfolding rows using k lkc rkc by blast
    then obtain x where "x \<in> set (rows u)" "snd x = cs"
      by blast
    then show "k \<in> (\<lambda>x. cell_at key (snd x)) ` set (rows u)"
      using join_key_cells(1) [OF disj key cs] by force
  qed
  show "\<forall>x \<in> set (rows u). fst ` set (snd x) = set (columns u)"
  proof
    fix x
    assume "x \<in> set (rows u)"
    from mem [OF this] obtain k where "snd x \<in> set (join_key key l r k)"
      by blast
    from join_key_cells(2) [OF disj key this] show "fst ` set (snd x) = set (columns u)"
      unfolding cols by auto
  qed
  show "\<forall>x \<in> set (rows u). cell_at key (snd x) \<notin> set (col r key) \<longrightarrow>
           (\<forall>c \<in> set (columns r) - {key}. cell_at c (snd x) = NaN)"
  proof (intro ballI impI)
    fix x c
    assume x: "x \<in> set (rows u)" and n: "cell_at key (snd x) \<notin> set (col r key)"
      and c: "c \<in> set (columns r) - {key}"
    from mem [OF x] obtain k where k: "snd x \<in> set (join_key key l r k)"
      by blast
    from join_key_cells(1) [OF disj key k] n have "k \<notin> set (col r key)"
      by simp
    from join_key_cells(3) [OF disj key k this] c show "cell_at c (snd x) = NaN"
      by simp
  qed
  show "\<forall>x \<in> set (rows u). cell_at key (snd x) \<notin> set (col l key) \<longrightarrow>
           (\<forall>c \<in> set (columns l) - {key}. cell_at c (snd x) = NaN)"
  proof (intro ballI impI)
    fix x c
    assume x: "x \<in> set (rows u)" and n: "cell_at key (snd x) \<notin> set (col l key)"
      and c: "c \<in> set (columns l) - {key}"
    from mem [OF x] obtain k where k: "snd x \<in> set (join_key key l r k)"
      by blast
    from join_key_cells(1) [OF disj key k] n have "k \<notin> set (col l key)"
      by simp
    from join_key_cells(4) [OF disj key k this] c show "cell_at c (snd x) = NaN"
      by simp
  qed
qed

lemma list_all2_map_eq:
  "list_all2 P xs ys \<Longrightarrow> (\<And>x y. P x y \<Longrightarrow> g y = x) \<Longrightarrow> map g ys = xs"
  by (induction rule: list_all2_induct; simp)

lemma aggregate_key: "aggregate key cols rs k = Inr cs \<Longrightarrow> cell_at key cs = k"
  by (auto simp: aggregate_def and_then_eq_Inr cell_at_def)

lemma groupby_sum_Inr:
  assumes "groupby_sum key cols df = Inr dm"
  shows "columns dm = key # cols" and "col dm key = group_keys (col df key)"
proof -
  from assms obtain ks rs where ks: "series df key = Inr ks"
    and rs: "traverse (aggregate key cols (rows df)) (group_keys ks) = Inr rs"
    and dm: "dm = \<lparr>columns = key # cols, rows = enumerate 0 rs\<rparr>"
    by (auto simp: groupby_sum_def and_then_eq_Inr split: if_splits)
  show "columns dm = key # cols"
    by (simp add: dm)
  have "map (cell_at key) rs = group_keys ks"
    using traverse_Inr [OF rs] by (rule list_all2_map_eq) (rule aggregate_key)
  moreover have "col dm key = map (cell_at key) (map snd (enumerate 0 rs))"
    unfolding col_def dm by (simp only: frame.simps map_map o_def)
  ultimately show "col dm key = group_keys (col df key)"
    using series_Inr [OF ks] by (simp only: map_snd_enumerate)
qed

lemma set_group_keys: "set (group_keys ks) = set ks - {NaN}"
  by (auto simp: group_keys_def)

lemma fill0_not_NaN [simp]: "fill0 c \<noteq> NaN"
  by (cases c; simp)

lemma NaN_not_fill0: "NaN \<noteq> fill0 c"
  by (cases c; simp)

lemma fill0_id: "c \<noteq> NaN \<Longrightarrow> fill0 c = c"
  by (cases c; simp)

lemma rows_transfer:
  assumes "col u a = map f (col u0 a)" and "col u c = map g (col u0 c)" and "x \<in> set (rows u)"
  obtains x0 where "x0 \<in> set (rows u0)" "cell_at a (snd x) = f (cell_at a (snd x0))"
    "cell_at c (snd x) = g (cell_at c (snd x0))"
proof -
  have "map (\<lambda>r. (cell_at a (snd r), cell_at c (snd r))) (rows u) =
        map (\<lambda>r. (f (cell_at a (snd r)), g (cell_at c (snd r)))) (rows u0)"
    using assms(1,2) unfolding col_def by (intro map_pair_eqI; simp add: o_def)
  moreover have "(cell_at a (snd x), cell_at c (snd x)) \<in>
      set (map (\<lambda>r. (cell_at a (snd r), cell_at c (snd r))) (rows u))"
    using assms(3) by (simp add: image_iff, blast)
  ultimately have "(cell_at a (snd x), cell_at c (snd x)) \<in>
      set (map (\<lambda>r. (f (cell_at a (snd r)), g (cell_at c (snd r)))) (rows u0))"
    by (simp only:)
  then show ?thesis
    using that by auto
qed

lemma create_unified_dataset_Inr:
  assumes u: "create_unified_dataset b m = Inr u"
    and disj: "set (columns b) \<inter> set (''marketing_efficiency'' # marketing_columns) = {}"
  obtains u0 where
    "(\<lambda>x. cell_at ''date'' (snd x)) ` set (rows u0) =
       set (col b ''date'') \<union> (set (col m ''date'') - {NaN})"
    "\<forall>x \<in> set (rows u0). cell_at ''date'' (snd x) \<notin> set (col m ''date'') - {NaN} \<longrightarrow>
       (\<forall>c \<in> set marketing_columns. cell_at c (snd x) = NaN)"
    "\<forall>x \<in> set (rows u0). cell_at ''date'' (snd x) \<notin> set (col b ''date'') \<longrightarrow>
       (\<forall>c \<in> set (columns b) - {''date''}. cell_at c (snd x) = NaN)"
    "\<forall>c \<in> set (columns b) \<union> set marketing_columns. col u c = map fill0 (col u0 c)"
proof -
  from u obtain dm roas ctr u0 me where
    dm: "groupby_sum ''date'' [''spend'', ''attributed revenue'', ''clicks'', ''impression''] m = Inr dm" and
    roas: "guarded_ratio dm ''spend'' ''attributed revenue'' ''spend'' 1 = Inr roas" and
    ctr: "guarded_ratio (assign ''daily_roas'' roas dm) ''impression'' ''clicks'' ''impression'' 100 = Inr ctr" and
    u0: "merge_outer ''date'' b (assign ''daily_ctr'' ctr (assign ''daily_roas'' roas dm)) = Inr u0" and
    me: "guarded_ratio (fillna0 u0) ''spend'' ''total_revenue'' ''spend'' 1 = Inr me" and
    uu: "u = assign ''marketing_efficiency'' me (fillna0 u0)"
    unfolding create_unified_dataset_def Let_def and_then_eq_Inr by blast
  define dm2 where "dm2 = assign ''daily_ctr'' ctr (assign ''daily_roas'' roas dm)"
  note g = groupby_sum_Inr [OF dm]
  have n1: "length roas = length (rows dm)"
    using guarded_ratio_length [OF roas] .
  have n2: "length ctr = length (rows (assign ''daily_roas'' roas dm))"
    using guarded_ratio_length [OF ctr] .
  have cols2: "columns dm2 = ''date'' # marketing_columns"
    by (simp add: dm2_def assign_def g(1) marketing_columns_def)
  have date2: "col dm2 ''date'' = group_keys (col m ''date'')"
    using n1 n2 by (simp add: dm2_def g(2))
  have d: "set (columns b) \<inter> set (columns dm2) \<subseteq> {''date''}"
    using disj by (auto simp: cols2)
  note mo = merge_outer_Inr [OF u0 [folded dm2_def] d]
  have keys: "(\<lambda>x. cell_at ''date'' (snd x)) ` set (rows u0) =
       set (col b ''date'') \<union> (set (col m ''date'') - {NaN})"
    using mo(2) by (simp add: date2 set_group_keys)
  have mside: "\<forall>x \<in> set (rows u0). cell_at ''date'' (snd x) \<notin> set (col m ''date'') - {NaN} \<longrightarrow>
       (\<forall>c \<in> set marketing_columns. cell_at c (snd x) = NaN)"
    using mo(4) by (simp add: date2 set_group_keys cols2 marketing_columns_def)
  have bside: "\<forall>x \<in> set (rows u0). cell_at ''date'' (snd x) \<notin> set (col b ''date'') \<longrightarrow>
       (\<forall>c \<in> set (columns b) - {''date''}. cell_at c (snd x) = NaN)"
    using mo(5) by simp
  have cu0: "set (columns u0) = set (columns b) \<union> set marketing_columns"
    using mo(1) by (auto simp: cols2 marketing_columns_def)
  have hk: "has_key c u0" if "c \<in> set (columns b) \<union> set marketing_columns" for c
    using mo(3) that cu0 by (simp add: has_key_def list_all_iff)
  have n3: "length me = length (rows (fillna0 u0))"
    using guarded_ratio_length [OF me] .
  have cols: "col u c = map fill0 (col u0 c)" if c: "c \<in> set (columns b) \<union> set marketing_columns" for c
  proof -
    have "c \<noteq> ''marketing_efficiency''"
      using c disj by (auto simp: marketing_columns_def)
    then have "col u c = col (fillna0 u0) c"
      using n3 by (simp add: uu)
    then show ?thesis
      using col_fillna0 [OF hk [OF c]] by simp
  qed
  from cols have "\<forall>c \<in> set (columns b) \<union> set marketing_columns. col u c = map fill0 (col u0 c)"
    by blast
  with keys mside bside show ?thesis
    by (rule that)
qed

lemma unified_outer_join:
  assumes u: "create_unified_dataset b m = Inr u"
    and disj: "set (columns b) \<inter> set (''marketing_efficiency'' # marketing_columns) = {}"
    and nb: "NaN \<notin> set (col b ''date'')" and nm: "NaN \<notin> set (col m ''date'')"
  shows "set (col u ''date'') = set (col b ''date'') \<union> set (col m ''date'')"
    and "\<forall>x \<in> set (rows u). cell_at ''date'' (snd x) \<notin> set (col m ''date'') \<longrightarrow>
           (\<forall>c \<in> set marketing_columns. cell_at c (snd x) = Num 0)"
    and "\<forall>x \<in> set (rows u). cell_at ''date'' (snd x) \<notin> set (col b ''date'') \<longrightarrow>
           (\<forall>c \<in> set (columns b) - {''date''}. cell_at c (snd x) = Num 0)"
proof -
  from u disj obtain u0 where
    keys: "(\<lambda>x. cell_at ''date'' (snd x)) ` set (rows u0) =
       set (col b ''date'') \<union> (set (col m ''date'') - {NaN})" and
    mside: "\<forall>x \<in> set (rows u0). cell_at ''date'' (snd x) \<notin> set (col m ''date'') - {NaN} \<longrightarrow>
       (\<forall>c \<in> set marketing_columns. cell_at c (snd x) = NaN)" and
    bside: "\<forall>x \<in> set (rows u0). cell_at ''date'' (snd x) \<notin> set (col b ''date'') \<longrightarrow>
       (\<forall>c \<in> set (columns b) - {''date''}. cell_at c (snd x) = NaN)" and
    cols: "\<forall>c \<in> set (columns b) \<union> set marketing_columns. col u c = map fill0 (col u0 c)"
    by (rule create_unified_dataset_Inr)
  have dateb: "''date'' \<in> set (columns b)"
    using u by (auto simp: create_unified_dataset_def Let_def and_then_eq_Inr merge_outer_def
        dest!: series_Inr split: if_splits)
  have k0: "cell_at ''date'' (snd x0) \<noteq> NaN" if "x0 \<in> set (rows u0)" for x0
  proof -
    from that have "cell_at ''date'' (snd x0) \<in> (\<lambda>x. cell_at ''date'' (snd x)) ` set (rows u0)"
      by (rule imageI)
    then show ?thesis
      unfolding keys using nb by auto
  qed
  have du: "col u ''date'' = map fill0 (col u0 ''date'')"
    using cols dateb by blast
  have "set (col u ''date'') = fill0 ` (\<lambda>x. cell_at ''date'' (snd x)) ` set (rows u0)"
    unfolding du by (simp add: col_def image_image)
  also have "\<dots> = (\<lambda>x. cell_at ''date'' (snd x)) ` set (rows u0)"
    using k0 by (force simp: image_iff fill0_id)
  also have "\<dots> = set (col b ''date'') \<union> set (col m ''date'')"
    unfolding keys using nm by simp
  finally show "set (col u ''date'') = set (col b ''date'') \<union> set (col m ''date'')" .
  show "\<forall>x \<in> set (rows u). cell_at ''date'' (snd x) \<notin> set (col m ''date'') \<longrightarrow>
           (\<forall>c \<in> set marketing_columns. cell_at c (snd x) = Num 0)"
  proof (intro ballI impI)
    fix x c
    assume x: "x \<in> set (rows u)" and n: "cell_at ''date'' (snd x) \<notin> set (col m ''date'')"
      and c: "c \<in> set marketing_columns"
    have cc: "col u c = map fill0 (col u0 c)"
      using cols c by blast
    from rows_transfer [OF du cc x] obtain x0 where x0: "x0 \<in> set (rows u0)"
      "cell_at ''date'' (snd x) = fill0 (cell_at ''date'' (snd x0))"
      "cell_at c (snd x) = fill0 (cell_at c (snd x0))"
      by blast
    have "cell_at ''date'' (snd x0) \<notin> set (col m ''date'') - {NaN}"
      using n x0(2) k0 [OF x0(1)] by (simp add: fill0_id)
    with mside x0(1) c have "cell_at c (snd x0) = NaN"
      by blast
    then show "cell_at c (snd x) = Num 0"
      using x0(3) by simp
  qed
  show "\<forall>x \<in> set (rows u). cell_at ''date'' (snd x) \<notin> set (col b ''date'') \<longrightarrow>
           (\<forall>c \<in> set (columns b) - {''date''}. cell_at c (snd x) = Num 0)"
  proof (intro ballI impI)
    fix x c
    assume x: "x \<in> set (rows u)" and n: "cell_at ''date'' (snd x) \<notin> set (col b ''date'')"
      and c: "c \<in> set (columns b) - {''date''}"
    have cc: "col u c = map fill0 (col u0 c)"
      using cols c by blast
    from rows_transfer [OF du cc x] obtain x0 where x0: "x0 \<in> set (rows u0)"
      "cell_at ''date'' (snd x) = fill0 (cell_at ''date'' (snd x0))"
      "cell_at c (snd x) = fill0 (cell_at c (snd x0))"
      by blast
    have "cell_at ''date'' (snd x0) \<notin> set (col b ''date'')"
      using n x0(2) k0 [OF x0(1)] by (simp add: fill0_id)
    with bside x0(1) c have "cell_at c (snd x0) = NaN"
      by blast
    then show "cell_at c (snd x) = Num 0"
      using x0(3) by simp
  qed
qed

lemma clean_business_data_dates:
  assumes "clean_business_data df = Inr out"
  shows "NaN \<notin> set (col out ''date'')"
proof -
  from assms obtain df6 where
    out: "out = df6\<lparr>rows := keep_first ''date'' [] (rows df6)\<rparr>" and
    dates: "col df6 ''date'' = map fill0 (col df ''date'')"
    by (rule clean_business_data_Inr)
  have sub: "set (col out ''date'') \<subseteq> set (col df6 ''date'')"
    unfolding out col_def using keep_first_subset [of "''date''" "[]" "rows df6"]
    by auto
  show ?thesis
  proof
    assume "NaN \<in> set (col out ''date'')"
    with sub have "NaN \<in> set (col df6 ''date'')"
      by blast
    then show False
      by (auto simp: dates NaN_not_fill0)
  qed
qed

lemma clean_marketing_data_dates:
  assumes "clean_marketing_data df p = Inr out"
  shows "''date'' \<in> set (columns out)" and "NaN \<notin> set (col out ''date'')"
proof -
  from assms obtain df8 where
    out: "out = df8\<lparr>rows := filter (\<lambda>r. is_positive (cell_at ''impression'' (snd r))) (rows df8)\<rparr>" and
    dates: "col df8 ''date'' = map fill0 (col df ''date'')" and
    d: "''date'' \<in> set (columns df8)"
    by (rule clean_marketing_data_Inr)
  show "''date'' \<in> set (columns out)"
    using d by (simp add: out)
  have sub: "set (col out ''date'') \<subseteq> set (col df8 ''date'')"
    unfolding out col_def by auto
  show "NaN \<notin> set (col out ''date'')"
  proof
    assume "NaN \<in> set (col out ''date'')"
    with sub have "NaN \<in> set (col df8 ''date'')"
      by blast
    then show False
      by (auto simp: dates NaN_not_fill0)
  qed
qed

lemma set_union_columns_fold:
  "set (fold (\<lambda>df acc. acc @ filter (\<lambda>c. c \<notin> set acc) (columns df)) dfs acc0) =
   set acc0 \<union> (\<Union>df \<in> set dfs. set (columns df))"
  by (induction dfs arbitrary: acc0; auto)

lemma set_union_columns: "set (union_columns dfs) = (\<Union>df \<in> set dfs. set (columns df))"
  by (simp add: union_columns_def set_union_columns_fold)

lemma cell_at_reindex: "cell_at c (reindex cols cs) = (if c \<in> set cols then cell_at c cs else NaN)"
  using cell_at_map_pairs [of c "\<lambda>c. cell_at c cs" cols "[]"]
  by (simp add: reindex_def)

lemma combine_marketing_data_dates:
  assumes "argsort_spec argsort"
    and "combine_marketing_data argsort facebook_df google_df tiktok_df = Inr out"
  shows "NaN \<notin> set (col out ''date'')"
proof -
  from assms(2) obtain fb g tt where
    fb: "clean_marketing_data facebook_df ''Facebook'' = Inr fb" and
    g: "clean_marketing_data google_df ''Google'' = Inr g" and
    tt: "clean_marketing_data tiktok_df ''TikTok'' = Inr tt" and
    sv: "sort_values argsort ''date'' (concat_frames [fb, g, tt]) = Inr out"
    unfolding combine_marketing_data_def and_then_eq_Inr by blast
  define pre where "pre = concat_frames [fb, g, tt]"
  have "mset (rows out) = mset (rows pre)"
    using sort_values_Inr(2) [OF assms(1) sv] by (simp add: pre_def)
  then have "set (rows out) = set (rows pre)"
    by (metis set_mset_mset)
  then have a: "set (col out ''date'') = set (map (cell_at ''date'') (map snd (rows pre)))"
    by (simp add: col_def image_image)
  have d: "''date'' \<in> set (columns pre)"
    using clean_marketing_data_dates(1) [OF fb]
    by (simp add: pre_def concat_frames_def set_union_columns)
  have b: "map snd (rows pre) =
      map (\<lambda>r. reindex (columns pre) (snd r)) (rows fb @ rows g @ rows tt)"
    unfolding pre_def rows_concat_frames by simp
  have "map (cell_at ''date'') (map snd (rows pre)) =
      col fb ''date'' @ col g ''date'' @ col tt ''date''"
    unfolding b col_def using d by (simp add: cell_at_reindex o_def)
  then have "set (col out ''date'') =
      set (col fb ''date'') \<union> set (col g ''date'') \<union> set (col tt ''date'')"
    unfolding a by (simp add: Un_assoc)
  then show ?thesis
    using clean_marketing_data_dates(2) [OF fb] clean_marketing_data_dates(2) [OF g]
      clean_marketing_data_dates(2) [OF tt]
    by simp
qed

lemma business_two_days_cleaned:
  "clean_business_data business_two_days = Inr business_two_days_clean"
  by (simp add: business_two_days_def business_two_days_clean_def eval_simps
      cong: and_then_weak_cong)

lemma ad_two_days_cleaned:
  "clean_marketing_data ad_two_days ''Facebook'' = Inr ad_two_days_clean"
  by (simp add: ad_two_days_def ad_two_days_clean_def eval_simps cong: and_then_weak_cong)

lemma ad_two_days_combined:
  "combine_marketing_data stable_argsort ad_two_days no_ads no_ads = Inr ad_two_days_clean"
proof -
  have "stable_argsort [Date 1, Date 3] = [0, 1]"
    by (simp add: stable_argsort_def)
  then show ?thesis
    by (simp add: combine_marketing_data_def ad_two_days_cleaned no_ads_cleaned
      ad_two_days_clean_def no_ads_clean_def concat_frames_def union_columns_def reindex_def
      sort_values_def comparable_def series_def cell_at_def cong: and_then_weak_cong)
qed

lemma three_days_unified:
  "create_unified_dataset business_two_days_clean ad_two_days_clean = Inr unified_three_days"
  by (simp add: business_two_days_clean_def ad_two_days_clean_def unified_three_days_def
      unify_simps eval_simps cong: and_then_weak_cong)

text \<open>
  Claim C4. Take a cleaned business table and a combined ad table, and let the
  business table have no column that bears the name of a marketing column of the
  unified table. Then the dates of the unified table are the dates of the business
  table together with the dates of the ad table (which are the dates of its daily
  aggregate); in a record whose date the ad table lacks, every marketing column is 0;
  and in a record whose date the business table lacks, every business column but
  the date is 0.
\<close>

theorem unified_dataset_outer_join:
  assumes "clean_business_data business_df = Inr business"
    and "argsort_spec argsort"
    and "combine_marketing_data argsort facebook_df google_df tiktok_df = Inr marketing"
    and "create_unified_dataset business marketing = Inr unified"
    and "set (columns business) \<inter> set (''marketing_efficiency'' # marketing_columns) = {}"
  shows "set (col unified ''date'') = set (col business ''date'') \<union> set (col marketing ''date'') \<and>
    (\<forall>x \<in> set (rows unified). cell_at ''date'' (snd x) \<notin> set (col marketing ''date'') \<longrightarrow>
       (\<forall>c \<in> set marketing_columns. cell_at c (snd x) = Num 0)) \<and>
    (\<forall>x \<in> set (rows unified). cell_at ''date'' (snd x) \<notin> set (col business ''date'') \<longrightarrow>
       (\<forall>c \<in> set (columns business) - {''date''}. cell_at c (snd x) = Num 0))"
proof -
  have nb: "NaN \<notin> set (col business ''date'')"
    using assms(1) by (rule clean_business_data_dates)
  have nm: "NaN \<notin> set (col marketing ''date'')"
    using assms(2,3) by (rule combine_marketing_data_dates)
  from unified_outer_join [OF assms(4,5) nb nm] show ?thesis
    by blast
qed

theorem unified_dataset_outer_join_witness:
  "clean_business_data business_two_days = Inr business_two_days_clean \<and>
   argsort_spec stable_argsort \<and>
   combine_marketing_data stable_argsort ad_two_days no_ads no_ads = Inr ad_two_days_clean \<and>
   create_unified_dataset business_two_days_clean ad_two_days_clean = Inr unified_three_days \<and>
   set (columns business_two_days_clean) \<inter> set (''marketing_efficiency'' # marketing_columns) = {} \<and>
   col business_two_days_clean ''date'' = [Date 1, Date 2] \<and>
   col ad_two_days_clean ''date'' = [Date 1, Date 3] \<and>
   set (col unified_three_days ''date'') = {Date 1, Date 2, Date 3} \<and>
   cell_at ''date'' (snd (rows unified_three_days ! 1)) = Date 2 \<and>
   list_all (\<lambda>c. cell_at c (snd (rows unified_three_days ! 1)) = Num 0) marketing_columns \<and>
   cell_at ''date'' (snd (rows unified_three_days ! 2)) = Date 3 \<and>
   cell_at ''total_revenue'' (snd (rows unified_three_days ! 2)) = Num 0"
proof -
  have disj: "set (columns business_two_days_clean) \<inter>
      set (''marketing_efficiency'' # marketing_columns) = {}"
    by (simp add: business_two_days_clean_def marketing_columns_def)
  note t = unified_dataset_outer_join [OF business_two_days_cleaned argsort_spec_stable
      ad_two_days_combined three_days_unified disj]
  have b: "col business_two_days_clean ''date'' = [Date 1, Date 2]"
    and m: "col ad_two_days_clean ''date'' = [Date 1, Date 3]"
    by (simp add: business_two_days_clean_def ad_two_days_clean_def col_def cell_at_def)+
  have r1: "rows unified_three_days ! 1 \<in> set (rows unified_three_days)"
    and r2: "rows unified_three_days ! 2 \<in> set (rows unified_three_days)"
    by (simp add: unified_three_days_def)+
  have d1: "cell_at ''date'' (snd (rows unified_three_days ! 1)) = Date 2"
    and d2: "cell_at ''date'' (snd (rows unified_three_days ! 2)) = Date 3"
    by (simp add: unified_three_days_def cell_at_def)+
  from t have t1: "set (col unified_three_days ''date'') =
      set (col business_two_days_clean ''date'') \<union> set (col ad_two_days_clean ''date'')"
    and t2: "\<forall>x \<in> set (rows unified_three_days).
       cell_at ''date'' (snd x) \<notin> set (col ad_two_days_clean ''date'') \<longrightarrow>
       (\<forall>c \<in> set marketing_columns. cell_at c (snd x) = Num 0)"
    and t3: "\<forall>x \<in> set (rows unified_three_days).
       cell_at ''date'' (snd x) \<notin> set (col business_two_days_clean ''date'') \<longrightarrow>
       (\<forall>c \<in> set (columns business_two_days_clean) - {''date''}. cell_at c (snd x) = Num 0)"
    by (blast+)
  have "set (col unified_three_days ''date'') = {Date 1, Date 2, Date 3}"
    unfolding t1 b m by auto
  moreover have "\<forall>c \<in> set marketing_columns. cell_at c (snd (rows unified_three_days ! 1)) = Num 0"
    using bspec [OF t2 r1] unfolding d1 m by simp
  moreover have "\<forall>c \<in> set (columns business_two_days_clean) - {''date''}.
      cell_at c (snd (rows unified_three_days ! 2)) = Num 0"
    using bspec [OF t3 r2] unfolding d2 b by simp
  then have "cell_at ''total_revenue'' (snd (rows unified_three_days ! 2)) = Num 0"
    by (simp add: business_two_days_clean_def)
  ultimately show ?thesis
    using business_two_days_cleaned argsort_spec_stable ad_two_days_combined three_days_unified
      disj b m d1 d2
    by (simp only: list_all_iff simp_thms)
qed

end
